theory Spec2Isabelle
  imports Complex_Main
begin

section \<open>Static content\<close>

text \<open>
  The content module (\<^verbatim>\<open>@/data/content\<close>) exports the closed set of language codes and
  the list \<^verbatim>\<open>dailyQuotes\<close>. The language codes are the keys of \<^verbatim>\<open>voiceHints\<close>
  in \<^verbatim>\<open>GitaExperience.tsx\<close>. The quote list itself is data, so every function
  below that reads \<^verbatim>\<open>dailyQuotes\<close> takes it as its first argument.
\<close>

datatype Language = En | Hi | Ml | Ta | Kn | Te | Bn | Ar

text \<open>
  A localizable field is typed \<^verbatim>\<open>Record<Language, string>\<close>. The code reads it with
  \<^verbatim>\<open>value[language] ?? value.en\<close>, so at run time an entry may be missing: the field
  is a partial map, and \<open>None\<close> stands for \<^verbatim>\<open>undefined\<close>.
\<close>

type_synonym localized = "Language \<Rightarrow> string option"

text \<open>A quote: its \<^verbatim>\<open>id\<close>, \<^verbatim>\<open>text\<close> and \<^verbatim>\<open>source\<close>.\<close>

record Quote =
  quote_id :: string
  quote_text :: localized
  quote_source :: localized

section \<open>JavaScript values\<close>

text \<open>
  Strings held by the program (storage text, quote ids, the date string) are
  \<open>string\<close>s, one \<open>char\<close> per code unit below 256. A string produced by
  \<^verbatim>\<open>JSON.parse\<close> may hold any code unit (through a \<^verbatim>\<open>\uXXXX\<close> escape), so string
  values carry the list of their code units. A number carries its lexeme: nothing
  here computes with a parsed number.
\<close>

datatype jsvalue =
    JUndefined
  | JNull
  | JBool bool
  | JNumber string
  | JString "nat list"
  | JArray "jsvalue list"
  | JObject "(nat list \<times> jsvalue) list"

definition code_units :: "string \<Rightarrow> nat list" where
  "code_units s = map of_char s"

text \<open>A string of the program as a value.\<close>

definition str :: "string \<Rightarrow> jsvalue" where
  "str s = JString (code_units s)"

section \<open>Localized lookup\<close>

text \<open>
  \<^verbatim>\<open>const fetchLocalized = (value, language) => value[language] ?? value.en\<close>
\<close>

definition fetchLocalized :: "localized \<Rightarrow> Language \<Rightarrow> string option" where
  "fetchLocalized value language =
     (case value language of Some v \<Rightarrow> Some v | None \<Rightarrow> value En)"

section \<open>The daily quote, resolved and rendered\<close>

text \<open>
  The second \<^verbatim>\<open>useMemo\<close> of \<^verbatim>\<open>useDailyQuote\<close>. \<^verbatim>\<open>quoteId\<close> is whatever
  \<^verbatim>\<open>resolveQuoteId\<close> returned (a value, since a stored record is not validated);
  \<^verbatim>\<open>item.id === quoteId\<close> holds only for the string equal to the id.
  \<^verbatim>\<open>dailyQuotes.find(...) ?? dailyQuotes[0]\<close> is \<open>found\<close>.
\<close>

record rendered_quote =
  text_of :: "string option"
  source_of :: "string option"

definition found :: "Quote list \<Rightarrow> jsvalue \<Rightarrow> Quote option" where
  "found dailyQuotes quoteId =
     (case find (\<lambda>item. str (quote_id item) = quoteId) dailyQuotes of
        Some q \<Rightarrow> Some q
      | None \<Rightarrow> (case dailyQuotes of [] \<Rightarrow> None | q # _ \<Rightarrow> Some q))"

definition useDailyQuote :: "Quote list \<Rightarrow> Language \<Rightarrow> jsvalue \<Rightarrow> rendered_quote" where
  "useDailyQuote dailyQuotes language quoteId =
     (case found dailyQuotes quoteId of
        None \<Rightarrow> \<lparr>text_of = Some '''', source_of = Some ''''\<rparr>
      | Some q \<Rightarrow>
          \<lparr>text_of = (case quote_text q language of Some v \<Rightarrow> Some v | None \<Rightarrow> quote_text q En),
           source_of = (case quote_source q language of Some v \<Rightarrow> Some v | None \<Rightarrow> quote_source q En)\<rparr>)"

text \<open>What the hook renders from one quote: both fields under the English fallback.\<close>

definition render :: "Quote \<Rightarrow> Language \<Rightarrow> rendered_quote" where
  "render q language =
     \<lparr>text_of = fetchLocalized (quote_text q) language,
      source_of = fetchLocalized (quote_source q) language\<rparr>"


text \<open>
  The quote set of the specification's scenario: two quotes with English text only.
\<close>

definition scenario_q1 :: Quote where
  "scenario_q1 =
     \<lparr>quote_id = ''q1'', quote_text = [En \<mapsto> ''A''], quote_source = [En \<mapsto> ''S1'']\<rparr>"

definition scenario_q2 :: Quote where
  "scenario_q2 =
     \<lparr>quote_id = ''q2'', quote_text = [En \<mapsto> ''B''], quote_source = [En \<mapsto> ''S2'']\<rparr>"

section \<open>JSON\<close>

text \<open>
  \<^verbatim>\<open>JSON.stringify\<close> and \<^verbatim>\<open>JSON.parse\<close> are platform functions; they are modelled after
  the ECMAScript definitions, as far as the selector uses them.
\<close>

subsection \<open>\<^verbatim>\<open>JSON.stringify({ date: localDate, quoteId: selection.id })\<close>\<close>

definition hex_digit :: "nat \<Rightarrow> char" where
  "hex_digit n = ''0123456789abcdef'' ! n"

text \<open>
  QuoteJSONString: the two-character escapes, \<^verbatim>\<open>\u00xx\<close> for the other control
  characters, every other code unit as it is.
\<close>

definition escape_char :: "char \<Rightarrow> string" where
  "escape_char c =
     (if c = CHR 0x08 then [CHR 0x5C, CHR ''b'']
      else if c = CHR 0x09 then [CHR 0x5C, CHR ''t'']
      else if c = CHR 0x0A then [CHR 0x5C, CHR ''n'']
      else if c = CHR 0x0C then [CHR 0x5C, CHR ''f'']
      else if c = CHR 0x0D then [CHR 0x5C, CHR ''r'']
      else if c = CHR 0x22 then [CHR 0x5C, CHR 0x22]
      else if c = CHR 0x5C then [CHR 0x5C, CHR 0x5C]
      else if (of_char c :: nat) < 0x20 then
        [CHR 0x5C, CHR ''u'', CHR ''0'', CHR ''0'',
         hex_digit (of_char c div 16), hex_digit (of_char c mod 16)]
      else [c])"

definition JSON_quote :: "string \<Rightarrow> string" where
  "JSON_quote s = CHR 0x22 # concat (map escape_char s) @ [CHR 0x22]"

definition JSON_stringify_record :: "string \<Rightarrow> string \<Rightarrow> string" where
  "JSON_stringify_record date quoteId =
     ''{'' @ JSON_quote ''date'' @ '':'' @ JSON_quote date @ '','' @
     JSON_quote ''quoteId'' @ '':'' @ JSON_quote quoteId @ ''}''"

subsection \<open>\<^verbatim>\<open>JSON.parse\<close>\<close>

definition is_ws :: "char \<Rightarrow> bool" where
  "is_ws c \<longleftrightarrow> c = CHR 0x20 \<or> c = CHR 0x09 \<or> c = CHR 0x0A \<or> c = CHR 0x0D"

definition skip_ws :: "string \<Rightarrow> string" where
  "skip_ws s = dropWhile is_ws s"

definition is_digit :: "char \<Rightarrow> bool" where
  "is_digit c \<longleftrightarrow> (48::nat) \<le> of_char c \<and> (of_char c :: nat) \<le> 57"

definition hex_value :: "char \<Rightarrow> nat option" where
  "hex_value c =
     (let n = of_char c :: nat in
        if 48 \<le> n \<and> n \<le> 57 then Some (n - 48)
        else if 97 \<le> n \<and> n \<le> 102 then Some (n - 87)
        else if 65 \<le> n \<and> n \<le> 70 then Some (n - 55)
        else None)"

definition hex4 :: "char \<Rightarrow> char \<Rightarrow> char \<Rightarrow> char \<Rightarrow> nat option" where
  "hex4 a b c d =
     (case (hex_value a, hex_value b, hex_value c, hex_value d) of
        (Some x, Some y, Some z, Some w) \<Rightarrow> Some (((x * 16 + y) * 16 + z) * 16 + w)
      | _ \<Rightarrow> None)"

text \<open>The code unit a two-character escape stands for.\<close>

definition unescape :: "char \<Rightarrow> nat option" where
  "unescape e =
     (if e = CHR 0x22 then Some 0x22
      else if e = CHR 0x5C then Some 0x5C
      else if e = CHR ''/'' then Some 0x2F
      else if e = CHR ''b'' then Some 0x08
      else if e = CHR ''f'' then Some 0x0C
      else if e = CHR ''n'' then Some 0x0A
      else if e = CHR ''r'' then Some 0x0D
      else if e = CHR ''t'' then Some 0x09
      else None)"

text \<open>
  The characters of a string literal after its opening quote, up to the closing one:
  the code units, and the text that follows. \<open>None\<close> is a syntax error.
\<close>

fun parse_chars :: "string \<Rightarrow> (nat list \<times> string) option" where
  "parse_chars [] = None"
| "parse_chars (c # cs) =
     (if c = CHR 0x22 then Some ([], cs)
      else if c = CHR 0x5C then
        (case cs of
           [] \<Rightarrow> None
         | e # r \<Rightarrow>
             if e = CHR ''u'' then
               (case r of
                  h1 # h2 # h3 # h4 # r' \<Rightarrow>
                    (case hex4 h1 h2 h3 h4 of
                       None \<Rightarrow> None
                     | Some n \<Rightarrow> map_option (apfst ((#) n)) (parse_chars r'))
                | _ \<Rightarrow> None)
             else
               (case unescape e of
                  None \<Rightarrow> None
                | Some n \<Rightarrow> map_option (apfst ((#) n)) (parse_chars r)))
      else if (of_char c :: nat) < 0x20 then None
      else map_option (apfst ((#) (of_char c))) (parse_chars cs))"

text \<open>Numbers: \<^verbatim>\<open>-? (0 | [1-9][0-9]*) (. [0-9]+)? ([eE] [+-]? [0-9]+)?\<close>.\<close>

definition parse_int :: "string \<Rightarrow> (string \<times> string) option" where
  "parse_int s =
     (let sign = (case s of c # _ \<Rightarrow> if c = CHR ''-'' then ''-'' else [] | [] \<Rightarrow> []);
          r = drop (length sign) s;
          ds = takeWhile is_digit r
      in if ds = [] \<or> (hd ds = CHR ''0'' \<and> length ds > 1) then None
         else Some (sign @ ds, dropWhile is_digit r))"

definition parse_frac :: "string \<Rightarrow> (string \<times> string) option" where
  "parse_frac s =
     (case s of
        [] \<Rightarrow> Some ([], s)
      | c # r \<Rightarrow>
          if c = CHR ''.'' then
            (if takeWhile is_digit r = [] then None
             else Some (c # takeWhile is_digit r, dropWhile is_digit r))
          else Some ([], s))"

definition parse_exp :: "string \<Rightarrow> (string \<times> string) option" where
  "parse_exp s =
     (case s of
        [] \<Rightarrow> Some ([], s)
      | c # r \<Rightarrow>
          if c = CHR ''e'' \<or> c = CHR ''E'' then
            (let sign = (case r of d # _ \<Rightarrow> if d = CHR ''+'' \<or> d = CHR ''-'' then [d] else []
                                 | [] \<Rightarrow> []);
                 r' = drop (length sign) r
             in if takeWhile is_digit r' = [] then None
                else Some (c # sign @ takeWhile is_digit r', dropWhile is_digit r'))
          else Some ([], s))"

definition parse_number :: "string \<Rightarrow> (string \<times> string) option" where
  "parse_number s =
     (case parse_int s of
        None \<Rightarrow> None
      | Some (a, s1) \<Rightarrow>
          (case parse_frac s1 of
             None \<Rightarrow> None
           | Some (b, s2) \<Rightarrow>
               (case parse_exp s2 of
                  None \<Rightarrow> None
                | Some (c, s3) \<Rightarrow> Some (a @ b @ c, s3))))"

text \<open>
  Values, array elements and object members. The first argument bounds the number of
  nested calls; \<open>JSON_parse\<close> gives two per character, which is enough for every
  text (lemma \<open>JSON_parse_enough\<close> below).
\<close>

fun parse_value :: "nat \<Rightarrow> string \<Rightarrow> (jsvalue \<times> string) option"
  and parse_elements :: "nat \<Rightarrow> string \<Rightarrow> (jsvalue list \<times> string) option"
  and parse_members :: "nat \<Rightarrow> string \<Rightarrow> ((nat list \<times> jsvalue) list \<times> string) option"
where
  "parse_value 0 s = None"
| "parse_value (Suc n) s =
     (case skip_ws s of
        [] \<Rightarrow> None
      | c # cs \<Rightarrow>
          if c = CHR ''{'' then
            (case skip_ws cs of
               [] \<Rightarrow> None
             | d # ds \<Rightarrow>
                 if d = CHR ''}'' then Some (JObject [], ds)
                 else map_option (apfst JObject) (parse_members n cs))
          else if c = CHR ''['' then
            (case skip_ws cs of
               [] \<Rightarrow> None
             | d # ds \<Rightarrow>
                 if d = CHR '']'' then Some (JArray [], ds)
                 else map_option (apfst JArray) (parse_elements n cs))
          else if c = CHR 0x22 then map_option (apfst JString) (parse_chars cs)
          else if take 4 (c # cs) = ''true'' then Some (JBool True, drop 3 cs)
          else if take 5 (c # cs) = ''false'' then Some (JBool False, drop 4 cs)
          else if take 4 (c # cs) = ''null'' then Some (JNull, drop 3 cs)
          else map_option (apfst JNumber) (parse_number (c # cs)))"
| "parse_elements 0 s = None"
| "parse_elements (Suc n) s =
     (case parse_value n s of
        None \<Rightarrow> None
      | Some (v, r) \<Rightarrow>
          (case skip_ws r of
             [] \<Rightarrow> None
           | c # cs \<Rightarrow>
               if c = CHR '','' then map_option (apfst ((#) v)) (parse_elements n cs)
               else if c = CHR '']'' then Some ([v], cs)
               else None))"
| "parse_members 0 s = None"
| "parse_members (Suc n) s =
     (case skip_ws s of
        [] \<Rightarrow> None
      | q # cs \<Rightarrow>
          if q \<noteq> CHR 0x22 then None
          else
            (case parse_chars cs of
               None \<Rightarrow> None
             | Some (k, r) \<Rightarrow>
                 (case skip_ws r of
                    [] \<Rightarrow> None
                  | c # r1 \<Rightarrow>
                      if c \<noteq> CHR '':'' then None
                      else
                        (case parse_value n r1 of
                           None \<Rightarrow> None
                         | Some (v, r2) \<Rightarrow>
                             (case skip_ws r2 of
                                [] \<Rightarrow> None
                              | d # r3 \<Rightarrow>
                                  if d = CHR '','' then
                                    map_option (apfst ((#) (k, v))) (parse_members n r3)
                                  else if d = CHR ''}'' then Some ([(k, v)], r3)
                                  else None)))))"

text \<open>\<open>None\<close>: \<^verbatim>\<open>JSON.parse\<close> throws a SyntaxError.\<close>

definition JSON_parse :: "string \<Rightarrow> jsvalue option" where
  "JSON_parse s =
     (case parse_value (2 * length s + 2) s of
        None \<Rightarrow> None
      | Some (v, r) \<Rightarrow> if skip_ws r = [] then Some v else None)"

text \<open>
  \<^verbatim>\<open>stored?.date\<close> and \<^verbatim>\<open>stored.quoteId\<close>: the property of an object that
  \<^verbatim>\<open>JSON.parse\<close> built is the value of the last member under that key; \<^verbatim>\<open>null\<close>
  (through \<^verbatim>\<open>?.\<close>) and every value that is not an object give \<^verbatim>\<open>undefined\<close>. (No
  prototype defines \<^verbatim>\<open>date\<close> or \<^verbatim>\<open>quoteId\<close>, the only keys read.)
\<close>

definition get_prop :: "jsvalue \<Rightarrow> string \<Rightarrow> jsvalue" where
  "get_prop v key =
     (case v of
        JObject members \<Rightarrow>
          (case map_of (rev members) (code_units key) of Some x \<Rightarrow> x | None \<Rightarrow> JUndefined)
      | _ \<Rightarrow> JUndefined)"

section \<open>Dates\<close>

text \<open>
  The \<^verbatim>\<open>Date\<close> object is the platform's. A time value is a number of milliseconds
  since the epoch, in UTC. The local zone is the platform's \<open>LocalTZA(t, isUTC)\<close>: the
  offset of local time from UTC in milliseconds, in force at the UTC time value \<open>t\<close>
  (\<open>isUTC\<close> true) or at the local time \<open>t\<close> (\<open>isUTC\<close> false); it may change with
  the time, as it does where daylight saving is kept. Days are counted in the proleptic
  Gregorian calendar, months from 1.
\<close>

type_synonym zone = "int \<Rightarrow> bool \<Rightarrow> int"

text \<open>A zone that keeps one offset, given in minutes east of UTC.\<close>

definition fixed_zone :: "int \<Rightarrow> zone" where
  "fixed_zone minutes t isUTC = minutes * 60000"


definition msPerDay :: int where
  "msPerDay = 86400000"

definition days_from_civil :: "int \<Rightarrow> int \<Rightarrow> int \<Rightarrow> int" where
  "days_from_civil y m d =
     (let y' = (if m \<le> 2 then y - 1 else y);
          era = y' div 400;
          yoe = y' - era * 400;
          doy = (153 * (if m > 2 then m - 3 else m + 9) + 2) div 5 + d - 1;
          doe = yoe * 365 + yoe div 4 - yoe div 100 + doy
      in era * 146097 + doe - 719468)"

definition civil_from_days :: "int \<Rightarrow> int \<times> int \<times> int" where
  "civil_from_days z =
     (let z' = z + 719468;
          era = z' div 146097;
          doe = z' - era * 146097;
          yoe = (doe - doe div 1460 + doe div 36524 - doe div 146096) div 365;
          doy = doe - (365 * yoe + yoe div 4 - yoe div 100);
          mp = (5 * doy + 2) div 153;
          d = doy - (153 * mp + 2) div 5 + 1;
          m = (if mp < 10 then mp + 3 else mp - 9);
          y = yoe + era * 400
      in (if m \<le> 2 then y + 1 else y, m, d))"

text \<open>
  \<^verbatim>\<open>getFullYear()\<close>, \<^verbatim>\<open>getMonth()\<close> (from 0) and \<^verbatim>\<open>getDate()\<close> of a time value: the
  fields of the local time.
\<close>

definition local_fields :: "zone \<Rightarrow> int \<Rightarrow> int \<times> int \<times> int" where
  "local_fields tza t =
     (case civil_from_days ((t + tza t True) div msPerDay) of (y, m, d) \<Rightarrow> (y, m - 1, d))"

text \<open>
  \<^verbatim>\<open>new Date(year, month, date)\<close>: midnight of that day in local time, as a time
  value: the local time less the offset in force at that local time. A year from 0 to
  99 means 1900 + year.
\<close>

definition Date_of_fields :: "zone \<Rightarrow> int \<Rightarrow> int \<Rightarrow> int \<Rightarrow> int" where
  "Date_of_fields tza year month date =
     (let yr = (if 0 \<le> year \<and> year \<le> 99 then 1900 + year else year);
          local = days_from_civil yr (month + 1) date * msPerDay
      in local - tza local False)"

text \<open>Decimal digits, zero-padded to a width.\<close>

primrec dec :: "nat \<Rightarrow> nat \<Rightarrow> string" where
  "dec 0 k = []"
| "dec (Suc w) k = dec w (k div 10) @ [''0123456789'' ! (k mod 10)]"

text \<open>
  \<^verbatim>\<open>toISOString()\<close>: the UTC fields, \<^verbatim>\<open>YYYY-MM-DDTHH:mm:ss.sssZ\<close>; a year outside
  0..9999 is written with a sign and six digits.
\<close>

definition toISOString :: "int \<Rightarrow> string" where
  "toISOString t =
     (case civil_from_days (t div msPerDay) of
        (y, m, d) \<Rightarrow>
          (let ms = nat (t mod msPerDay);
               year = (if 0 \<le> y \<and> y \<le> 9999 then dec 4 (nat y)
                       else (if y < 0 then ''-'' else ''+'') @ dec 6 (nat \<bar>y\<bar>))
           in year @ ''-'' @ dec 2 (nat m) @ ''-'' @ dec 2 (nat d) @ ''T'' @
              dec 2 (ms div 3600000) @ '':'' @ dec 2 (ms div 60000 mod 60) @ '':'' @
              dec 2 (ms div 1000 mod 60) @ ''.'' @ dec 3 (ms mod 1000) @ ''Z''))"

text \<open>
  Lines 12 to 15 of \<^verbatim>\<open>useDailyQuote.ts\<close>:
  \<^verbatim>\<open>new Date(today.getFullYear(), today.getMonth(), today.getDate()).toISOString().slice(0, 10)\<close>
  with \<^verbatim>\<open>today = new Date()\<close> the time value \<open>t\<close>.
\<close>

definition localDate :: "zone \<Rightarrow> int \<Rightarrow> string" where
  "localDate tza t =
     (case local_fields tza t of
        (year, month, date) \<Rightarrow> take 10 (toISOString (Date_of_fields tza year month date)))"

text \<open>
  The local calendar date of a time value, written \<^verbatim>\<open>YYYY-MM-DD\<close>: what the
  specification calls \<^verbatim>\<open>today\<close>.
\<close>

definition local_calendar_date :: "zone \<Rightarrow> int \<Rightarrow> string" where
  "local_calendar_date tza t =
     (case civil_from_days ((t + tza t True) div msPerDay) of
        (y, m, d) \<Rightarrow> dec 4 (nat y) @ ''-'' @ dec 2 (nat m) @ ''-'' @ dec 2 (nat d))"

section \<open>The browser, as the quote selector sees it\<close>

datatype exn =
  SecurityError | QuotaExceededError | SyntaxError | InvalidStateError | RangeError

text \<open>
  What both hooks read of the environment: whether \<^verbatim>\<open>window\<close> is defined, and
  \<^verbatim>\<open>Math.random()\<close>, a stream of numbers of which \<open>draws\<close> have been taken.
\<close>

record js_env =
  has_window :: bool
  random :: "nat \<Rightarrow> real"
  draws :: nat

definition Math_random :: "'a js_env_scheme \<Rightarrow> real \<times> 'a js_env_scheme" where
  "Math_random w = (random w (draws w), w\<lparr>draws := Suc (draws w)\<rparr>)"

datatype storage_call = GetItem string | SetItem string string

text \<open>
  \<^verbatim>\<open>window.localStorage\<close>: the stored items; whether the storage object can be
  reached at all (reading \<^verbatim>\<open>window.localStorage\<close> throws a SecurityError where storage
  is disabled); whether it accepts a write (\<^verbatim>\<open>setItem\<close> throws a QuotaExceededError
  where it does not). \<open>calls\<close> records the calls made, the first one first. \<open>clock\<close> is
  the time value \<^verbatim>\<open>new Date()\<close> reads, \<open>LocalTZA\<close> the zone of the device.
\<close>

record world = js_env +
  clock :: int
  LocalTZA :: zone
  storage_available :: bool
  storage_writable :: bool
  storage :: "string \<Rightarrow> string option"
  calls :: "storage_call list"

definition getItem :: "string \<Rightarrow> world \<Rightarrow> (exn + string option) \<times> world" where
  "getItem key w =
     (if \<not> storage_available w then (Inl SecurityError, w)
      else (Inr (storage w key), w\<lparr>calls := calls w @ [GetItem key]\<rparr>))"

definition setItem :: "string \<Rightarrow> string \<Rightarrow> world \<Rightarrow> (exn + unit) \<times> world" where
  "setItem key v w =
     (if \<not> storage_available w then (Inl SecurityError, w)
      else if \<not> storage_writable w then
        (Inl QuotaExceededError, w\<lparr>calls := calls w @ [SetItem key v]\<rparr>)
      else (Inr (), w\<lparr>storage := (storage w)(key \<mapsto> v), calls := calls w @ [SetItem key v]\<rparr>))"

section \<open>The daily quote selector\<close>

definition STORAGE_KEY :: string where
  "STORAGE_KEY = ''gita-daily-quote''"

text \<open>\<^verbatim>\<open>xs[i]\<close> for a number \<open>i\<close>: \<^verbatim>\<open>undefined\<close> out of range.\<close>

definition element :: "'a list \<Rightarrow> int \<Rightarrow> 'a option" where
  "element xs i = (if 0 \<le> i \<and> i < int (length xs) then Some (xs ! nat i) else None)"

text \<open>
  Lines 17 to 25: the \<^verbatim>\<open>try\<close> block that reads the stored record. Every exception in
  it (the storage is unreachable, the text is not JSON) leaves \<^verbatim>\<open>stored = null\<close>, and
  so does a missing or empty text.
\<close>

definition read_stored :: "world \<Rightarrow> jsvalue \<times> world" where
  "read_stored w =
     (case getItem STORAGE_KEY w of
        (Inl e, w') \<Rightarrow> (JNull, w')
      | (Inr None, w') \<Rightarrow> (JNull, w')
      | (Inr (Some raw), w') \<Rightarrow>
          if raw = [] then (JNull, w')
          else (case JSON_parse raw of None \<Rightarrow> (JNull, w') | Some v \<Rightarrow> (v, w')))"

text \<open>
  Lines 31 to 42: a quote is drawn, the record for \<open>today\<close> is written, the id is
  returned. The write stands outside every \<^verbatim>\<open>try\<close>: an exception of \<^verbatim>\<open>setItem\<close>
  leaves the function.
\<close>

definition select_fresh :: "Quote list \<Rightarrow> string \<Rightarrow> world \<Rightarrow> (exn + jsvalue) \<times> world" where
  "select_fresh dailyQuotes today w =
     (case Math_random w of
        (r, w2) \<Rightarrow>
          (case (case element dailyQuotes \<lfloor>r * real (length dailyQuotes)\<rfloor> of
                   Some q \<Rightarrow> Some q
                 | None \<Rightarrow> element dailyQuotes 0) of
             Some selection \<Rightarrow>
               (case setItem STORAGE_KEY
                       (JSON_stringify_record today (quote_id selection)) w2 of
                  (Inl e, w3) \<Rightarrow> (Inl e, w3)
                | (Inr _, w3) \<Rightarrow> (Inr (str (quote_id selection)), w3))
           | None \<Rightarrow> (Inr (str ''''), w2)))"

text \<open>
  \<^verbatim>\<open>resolveQuoteId\<close>. The result is the returned value, or the exception that leaves
  the function, and the world after the call.
\<close>

definition resolveQuoteId :: "Quote list \<Rightarrow> world \<Rightarrow> (exn + jsvalue) \<times> world" where
  "resolveQuoteId dailyQuotes w =
     (if \<not> has_window w then
        (Inr (case dailyQuotes of [] \<Rightarrow> str '''' | q # _ \<Rightarrow> str (quote_id q)), w)
      else
        let today = localDate (LocalTZA w) (clock w) in
        case read_stored w of
          (stored, w1) \<Rightarrow>
            if get_prop stored ''date'' = str today then (Inr (get_prop stored ''quoteId''), w1)
            else select_fresh dailyQuotes today w1)"


text \<open>
  A browser for the examples: a window, a clock at 2024-03-15 06:30 UTC in a zone at
  UTC, an empty storage that accepts writes, and a random source that always gives
  one half.
\<close>

definition browser :: world where
  "browser =
     \<lparr>has_window = True, random = (\<lambda>_. 1 / 2), draws = 0,
      clock = 1710484200000, LocalTZA = fixed_zone 0,
      storage_available = True, storage_writable = True,
      storage = Map.empty, calls = []\<rparr>"

section \<open>Statements that may throw\<close>

text \<open>
  A statement either completes or throws; either way it leaves a state behind, since
  what it did before it threw stays done.
\<close>

datatype 's outcome = Done 's | Threw exn 's

type_synonym 's step = "'s \<Rightarrow> 's outcome"

text \<open>A sequence of statements: the first exception ends it.\<close>

fun steps :: "'s step list \<Rightarrow> 's step" where
  "steps [] s = Done s"
| "steps (f # fs) s = (case f s of Done s' \<Rightarrow> steps fs s' | Threw e s' \<Rightarrow> Threw e s')"

text \<open>The state an outcome leaves behind.\<close>

fun final :: "'s outcome \<Rightarrow> 's" where
  "final (Done s) = s"
| "final (Threw e s) = s"

text \<open>\<^verbatim>\<open>try { body } catch { }\<close> with an empty handler.\<close>

definition try_catch :: "'s step \<Rightarrow> 's step" where
  "try_catch body s = (case body s of Done s' \<Rightarrow> Done s' | Threw e s' \<Rightarrow> Done s')"

section \<open>Numbers\<close>

text \<open>
  A JavaScript number is an IEEE 754 binary64 value: a numeric literal denotes the
  binary64 value nearest to it, and \<^verbatim>\<open>+\<close> and \<^verbatim>\<open>*\<close> give the binary64 value nearest to
  the exact result. The Web Audio interfaces declare the value of an \<^verbatim>\<open>AudioParam\<close> and
  the target of a ramp as \<^verbatim>\<open>float\<close>: the number given is converted to the nearest
  binary32 value. Both roundings are to nearest, ties to even.

  A finite number is modelled by the real number it denotes. \<open>rne\<close> rounds a real to
  the nearest integer, ties to even. \<open>fl p emin\<close> rounds a real to \<open>p\<close> significant
  bits: \<open>quantum\<close> is the exponent of the spacing of the values around \<open>x\<close>, the
  spacing of the binade of \<open>x\<close> and, below \<open>2 ^ emin\<close>, that of the lowest binade (the
  subnormal numbers). Infinity and NaN are not modelled: the numbers of the hook stay
  far below the largest finite value as long as the time of the audio context does.
\<close>

definition rne :: "real \<Rightarrow> int" where
  "rne y =
     (let n = \<lfloor>y\<rfloor>
      in if y - of_int n < 1 / 2 then n
         else if 1 / 2 < y - of_int n then n + 1
         else if even n then n else n + 1)"

definition quantum :: "nat \<Rightarrow> int \<Rightarrow> real \<Rightarrow> int" where
  "quantum p emin x = max \<lfloor>log 2 \<bar>x\<bar>\<rfloor> emin - int p + 1"

definition fl :: "nat \<Rightarrow> int \<Rightarrow> real \<Rightarrow> real" where
  "fl p emin x =
     (if x = 0 then 0
      else of_int (rne (x / 2 powi quantum p emin x)) * 2 powi quantum p emin x)"

text \<open>binary64, the numbers of JavaScript, and binary32, the \<^verbatim>\<open>float\<close> of Web IDL.\<close>

definition to_double :: "real \<Rightarrow> real" where
  "to_double = fl 53 (- 1022)"

definition to_float :: "real \<Rightarrow> real" where
  "to_float = fl 24 (- 126)"

section \<open>The Web Audio platform\<close>

text \<open>
  The audio nodes are objects of the platform; the hook holds references to them. They
  are kept in a heap, by number. An oscillator and a gain have one audio parameter
  each that the hook touches (\<^verbatim>\<open>frequency\<close>, \<^verbatim>\<open>gain\<close>): \<open>param\<close> is its value and
  \<open>automation\<close> the ramps scheduled on it. The value of a parameter and the target
  of a ramp are \<^verbatim>\<open>float\<close>: the platform keeps the binary32 value nearest to the number
  it is given. Times are \<^verbatim>\<open>double\<close> and kept as given. The log of calls holds the
  arguments as the hook passed them.
\<close>

datatype node_kind = Oscillator | Gain

datatype target = Destination | Input nat | Frequency nat

datatype ramp = LinearRamp real real | ExponentialRamp real real

record audio_node =
  kind :: node_kind
  wave :: string
  param :: real
  automation :: "ramp list"
  started :: bool
  stopped :: "real option"
  outputs :: "target list"

datatype context_state = Suspended | Running | Closed

record AudioContext =
  ctx_state :: context_state
  currentTime :: real

text \<open>The calls made on the platform, in order.\<close>

datatype audio_call =
    NewContext
  | Resume
  | Suspend
  | CreateOscillator nat
  | CreateGain nat
  | SetType nat string
  | SetValue nat real
  | Connect nat target
  | Disconnect nat
  | Start nat
  | Stop nat real
  | LinearRampToValueAtTime nat real real
  | ExponentialRampToValueAtTime nat real real

text \<open>\<^verbatim>\<open>interface DroneNode\<close>: four references.\<close>

record DroneNode =
  osc :: nat
  gain :: nat
  modOsc :: nat
  modGain :: nat

text \<open>
  The state of \<^verbatim>\<open>useTanpuraDrone\<close> and of the platform under it. \<open>AudioCtx\<close> is the
  constructor \<^verbatim>\<open>window.AudioContext ?? window.webkitAudioContext\<close>, given by the context
  it builds (the constructor is taken to succeed), \<open>None\<close> where neither exists. \<open>strict_stop\<close> tells the two behaviours of
  platforms apart: stopping an oscillator a second time throws on some (the comment at
  line 40 speaks of them) and is accepted on others. \<open>contextRef\<close>, \<open>nodesRef\<close> and
  \<open>isActive\<close> are the two refs and the state of the hook.
\<close>

record drone = js_env +
  AudioCtx :: "AudioContext option"
  strict_stop :: bool
  heap :: "nat \<Rightarrow> audio_node option"
  next_id :: nat
  audio_log :: "audio_call list"
  contextRef :: "AudioContext option"
  nodesRef :: "DroneNode list"
  isActive :: bool

definition called :: "audio_call \<Rightarrow> drone \<Rightarrow> drone" where
  "called c s = s\<lparr>audio_log := audio_log s @ [c]\<rparr>"

definition on_node :: "nat \<Rightarrow> (audio_node \<Rightarrow> audio_node) \<Rightarrow> drone \<Rightarrow> drone" where
  "on_node i f s = s\<lparr>heap := (heap s)(i := map_option f (heap s i))\<rparr>"

text \<open>A new oscillator is a sine at 440 Hz, a new gain has gain 1.\<close>

definition createOscillator :: "drone step" where
  "createOscillator s =
     Done (called (CreateOscillator (next_id s))
       (s\<lparr>heap := (heap s)(next_id s \<mapsto>
              \<lparr>kind = Oscillator, wave = ''sine'', param = 440, automation = [],
               started = False, stopped = None, outputs = []\<rparr>),
           next_id := Suc (next_id s)\<rparr>))"

definition createGain :: "drone step" where
  "createGain s =
     Done (called (CreateGain (next_id s))
       (s\<lparr>heap := (heap s)(next_id s \<mapsto>
              \<lparr>kind = Gain, wave = [], param = 1, automation = [],
               started = False, stopped = None, outputs = []\<rparr>),
           next_id := Suc (next_id s)\<rparr>))"

definition set_type :: "nat \<Rightarrow> string \<Rightarrow> drone step" where
  "set_type i t s = Done (called (SetType i t) (on_node i (\<lambda>n. n\<lparr>wave := t\<rparr>) s))"

definition set_value :: "nat \<Rightarrow> real \<Rightarrow> drone step" where
  "set_value i v s =
     Done (called (SetValue i v) (on_node i (\<lambda>n. n\<lparr>param := to_float v\<rparr>) s))"

definition connect :: "nat \<Rightarrow> target \<Rightarrow> drone step" where
  "connect i t s = Done (called (Connect i t) (on_node i (\<lambda>n. n\<lparr>outputs := outputs n @ [t]\<rparr>) s))"

definition disconnect :: "nat \<Rightarrow> drone step" where
  "disconnect i s = Done (called (Disconnect i) (on_node i (\<lambda>n. n\<lparr>outputs := []\<rparr>) s))"

text \<open>\<^verbatim>\<open>start()\<close> throws on an oscillator that was started before.\<close>

definition osc_start :: "nat \<Rightarrow> drone step" where
  "osc_start i s =
     (case heap s i of
        None \<Rightarrow> Done (called (Start i) s)
      | Some n \<Rightarrow>
          if started n then Threw InvalidStateError (called (Start i) s)
          else Done (called (Start i) (on_node i (\<lambda>n. n\<lparr>started := True\<rparr>) s)))"

text \<open>
  \<^verbatim>\<open>stop(when)\<close> throws on an oscillator that was never started and, on a strict
  platform, on one that was stopped before.
\<close>

definition osc_stop :: "nat \<Rightarrow> real \<Rightarrow> drone step" where
  "osc_stop i when s =
     (case heap s i of
        None \<Rightarrow> Done (called (Stop i when) s)
      | Some n \<Rightarrow>
          if \<not> started n \<or> (strict_stop s \<and> stopped n \<noteq> None) then
            Threw InvalidStateError (called (Stop i when) s)
          else Done (called (Stop i when) (on_node i (\<lambda>n. n\<lparr>stopped := Some when\<rparr>) s)))"

definition linearRampToValueAtTime :: "nat \<Rightarrow> real \<Rightarrow> real \<Rightarrow> drone step" where
  "linearRampToValueAtTime i v t s =
     Done (called (LinearRampToValueAtTime i v t)
       (on_node i (\<lambda>n. n\<lparr>automation := automation n @ [LinearRamp (to_float v) t]\<rparr>) s))"

text \<open>An exponential ramp to 0 is a RangeError.\<close>

definition exponentialRampToValueAtTime :: "nat \<Rightarrow> real \<Rightarrow> real \<Rightarrow> drone step" where
  "exponentialRampToValueAtTime i v t s =
     (if to_float v = 0 then Threw RangeError (called (ExponentialRampToValueAtTime i v t) s)
      else Done (called (ExponentialRampToValueAtTime i v t)
        (on_node i
           (\<lambda>n. n\<lparr>automation := automation n @ [ExponentialRamp (to_float v) t]\<rparr>) s)))"

text \<open>
  \<^verbatim>\<open>ctx.resume().catch(() => undefined)\<close> and \<^verbatim>\<open>ctx.suspend().catch(() => undefined)\<close>:
  the state asked for; on a closed context the promise is rejected and the rejection
  swallowed.
\<close>

definition resume :: "drone \<Rightarrow> drone" where
  "resume s =
     called Resume
       (s\<lparr>contextRef :=
            map_option (\<lambda>c. if ctx_state c = Closed then c else c\<lparr>ctx_state := Running\<rparr>)
              (contextRef s)\<rparr>)"

definition suspend :: "drone \<Rightarrow> drone" where
  "suspend s =
     called Suspend
       (s\<lparr>contextRef :=
            map_option (\<lambda>c. if ctx_state c = Closed then c else c\<lparr>ctx_state := Suspended\<rparr>)
              (contextRef s)\<rparr>)"

text \<open>\<^verbatim>\<open>ctx?.currentTime ?? 0\<close>\<close>

definition ctx_time :: "drone \<Rightarrow> real" where
  "ctx_time s = (case contextRef s of None \<Rightarrow> 0 | Some c \<Rightarrow> currentTime c)"

section \<open>The drone hook\<close>

definition DRONE_FREQUENCIES :: "real list" where
  "DRONE_FREQUENCIES = [to_double 146.83, to_double 220, to_double 293.66, to_double 220]"

text \<open>Line 74, and the right-hand side of line 79 for the number \<open>r\<close> that \<^verbatim>\<open>Math.random()\<close> gave.\<close>

definition spread :: "nat \<Rightarrow> real" where
  "spread index = (if index mod 2 = 0 then to_double 0.1 else - to_double 0.08)"

definition detune_rate :: "real \<Rightarrow> real" where
  "detune_rate r = to_double (to_double 0.1 + to_double (r * to_double 0.2))"

text \<open>
  The body of the \<^verbatim>\<open>forEach\<close> in \<^verbatim>\<open>start\<close> (lines 72 to 89) for one frequency and
  its index. The four nodes are created in the order \<^verbatim>\<open>osc\<close>, \<^verbatim>\<open>gain\<close>, \<^verbatim>\<open>detune\<close>,
  \<^verbatim>\<open>detuneGain\<close>, so they get the next four numbers in that order.
\<close>

definition voice :: "real \<Rightarrow> nat \<Rightarrow> drone step" where
  "voice freq index s =
     (let osc = next_id s; gain = next_id s + 1;
          detune = next_id s + 2; detuneGain = next_id s + 3
      in steps
           [createOscillator,
            createGain,
            set_type osc ''sine'',
            set_value osc freq,
            createOscillator,
            set_type detune ''sine'',
            (\<lambda>s. case Math_random s of (r, s') \<Rightarrow> set_value detune (detune_rate r) s'),
            createGain,
            set_value detuneGain (to_double (freq * spread index)),
            connect detune (Input detuneGain),
            connect detuneGain (Frequency osc),
            osc_start detune,
            set_value gain (to_double 0),
            connect osc (Input gain),
            connect gain Destination,
            osc_start osc,
            (\<lambda>s. linearRampToValueAtTime gain (to_double 0.08)
                   (to_double (ctx_time s + to_double 2)) s)] s)"

text \<open>Line 90: what the iteration pushes on \<^verbatim>\<open>oscillators\<close>.\<close>

definition voice_node :: "drone \<Rightarrow> DroneNode" where
  "voice_node s =
     \<lparr>osc = next_id s, gain = next_id s + 1, modOsc = next_id s + 2, modGain = next_id s + 3\<rparr>"

text \<open>
  \<^verbatim>\<open>DRONE_FREQUENCIES.forEach((freq, index) => ...)\<close>, with the local array
  \<^verbatim>\<open>oscillators\<close> beside the state.
\<close>

fun forEach_voice :: "real list \<Rightarrow> nat \<Rightarrow> (drone \<times> DroneNode list) step" where
  "forEach_voice [] index (s, oscillators) = Done (s, oscillators)"
| "forEach_voice (freq # rest) index (s, oscillators) =
     (case voice freq index s of
        Threw e s' \<Rightarrow> Threw e (s', oscillators)
      | Done s' \<Rightarrow> forEach_voice rest (Suc index) (s', oscillators @ [voice_node s]))"

definition start :: "drone step" where
  "start s =
     (if \<not> has_window s then Done s
      else
        case AudioCtx s of
          None \<Rightarrow> Done s
        | Some fresh \<Rightarrow>
            let s1 = (case contextRef s of
                        None \<Rightarrow> called NewContext (s\<lparr>contextRef := Some fresh\<rparr>)
                      | Some c \<Rightarrow> s);
                s2 = (case contextRef s1 of
                        None \<Rightarrow> s1
                      | Some ctx \<Rightarrow> if ctx_state ctx = Suspended then resume s1 else s1)
            in case forEach_voice DRONE_FREQUENCIES 0 (s2, []) of
                 Threw e (s3, oscillators) \<Rightarrow> Threw e s3
               | Done (s3, oscillators) \<Rightarrow>
                   Done (s3\<lparr>nodesRef := oscillators, isActive := True\<rparr>))"

text \<open>The body of the \<^verbatim>\<open>forEach\<close> in \<^verbatim>\<open>stop\<close> (lines 33 to 46) for one voice.\<close>

definition stop_node :: "real \<Rightarrow> DroneNode \<Rightarrow> drone step" where
  "stop_node now v =
     steps
       [try_catch
          (steps
             [exponentialRampToValueAtTime (gain v) (to_double 0.0001)
                (to_double (now + to_double 0.5)),
              exponentialRampToValueAtTime (modGain v) (to_double 0.0001)
                (to_double (now + to_double 0.5)),
              osc_stop (osc v) (to_double (now + to_double 0.6)),
              osc_stop (modOsc v) (to_double (now + to_double 0.6))]),
        disconnect (osc v),
        disconnect (gain v),
        disconnect (modOsc v),
        disconnect (modGain v)]"

definition stop :: "drone step" where
  "stop s =
     (let now = ctx_time s
      in case steps (map (stop_node now) (nodesRef s)) s of
           Threw e s' \<Rightarrow> Threw e s'
         | Done s1 \<Rightarrow>
             let s2 = s1\<lparr>nodesRef := []\<rparr>;
                 s3 = (if contextRef s2 \<noteq> None then suspend s2 else s2)
             in Done (s3\<lparr>isActive := False\<rparr>))"

text \<open>
  \<^verbatim>\<open>toggle\<close> (lines 97 to 103) is a closure that a render of the hook makes:
  \<^verbatim>\<open>isActive\<close> in its body is the constant of that render, not the state at the time
  of the call. \<^verbatim>\<open>setIsActive\<close> changes the state, and the dependency list of line 103
  makes the hook return a new closure once the component has rendered with the new
  value. The first argument is the \<^verbatim>\<open>isActive\<close> of the render that made the closure.
\<close>

definition toggle :: "bool \<Rightarrow> drone step" where
  "toggle isActive_of_render s = (if isActive_of_render then stop s else start s)"

text \<open>
  A call of the \<^verbatim>\<open>toggle\<close> that the latest render returned, where the component has
  rendered since the state last changed: the closure holds the \<^verbatim>\<open>isActive\<close> of the
  state it is called in.
\<close>

definition toggle_after_render :: "drone step" where
  "toggle_after_render s = toggle (isActive s) s"

text \<open>The two states of the synthesizer, with the voices they hold.\<close>

definition Idle :: "drone \<Rightarrow> bool" where
  "Idle s \<longleftrightarrow> \<not> isActive s \<and> nodesRef s = []"

definition Sounding :: "drone \<Rightarrow> bool" where
  "Sounding s \<longleftrightarrow> isActive s \<and> length (nodesRef s) = 4"

text \<open>An order of two calls in a list of calls: \<open>a\<close> is made, and \<open>b\<close> after it.\<close>

fun precedes :: "'a \<Rightarrow> 'a \<Rightarrow> 'a list \<Rightarrow> bool" where
  "precedes a b [] = False"
| "precedes a b (x # xs) = (if x = a then b \<in> set xs else precedes a b xs)"

text \<open>The calls a step made: what it added to the log.\<close>

definition made :: "drone \<Rightarrow> drone \<Rightarrow> audio_call list" where
  "made s s' = drop (length (audio_log s)) (audio_log s')"

text \<open>
  A voice of a session, to compare the state after \<^verbatim>\<open>start\<close> with: in the state \<open>s'\<close>
  that \<^verbatim>\<open>start\<close> reached from \<open>s\<close>, the voice \<open>v\<close> at index \<open>i\<close> is a sine
  oscillator at the \<open>i\<close>-th base frequency feeding its gain, a gain at 0 with one
  linear ramp to 0.08 ending 2 seconds from now feeding the destination, a sine
  modulator at \<open>rate\<close> feeding the modulator gain, and a modulator gain of frequency
  times spread feeding the oscillator's frequency, each number as the platform keeps
  it; both oscillators run, and both were started before the ramp was scheduled.
\<close>

definition session_voice :: "drone \<Rightarrow> drone \<Rightarrow> nat \<Rightarrow> real \<Rightarrow> DroneNode \<Rightarrow> bool" where
  "session_voice s s' i rate v \<longleftrightarrow>
     heap s' (osc v) =
       Some \<lparr>kind = Oscillator, wave = ''sine'', param = to_float (DRONE_FREQUENCIES ! i),
             automation = [], started = True, stopped = None, outputs = [Input (gain v)]\<rparr>
   \<and> heap s' (gain v) =
       Some \<lparr>kind = Gain, wave = [], param = 0,
             automation =
               [LinearRamp (to_float (to_double 0.08)) (to_double (ctx_time s' + to_double 2))],
             started = False, stopped = None, outputs = [Destination]\<rparr>
   \<and> heap s' (modOsc v) =
       Some \<lparr>kind = Oscillator, wave = ''sine'', param = rate,
             automation = [], started = True, stopped = None, outputs = [Input (modGain v)]\<rparr>
   \<and> heap s' (modGain v) =
       Some \<lparr>kind = Gain, wave = [],
             param = to_float (to_double (DRONE_FREQUENCIES ! i * spread i)),
             automation = [], started = False, stopped = None,
             outputs = [Frequency (osc v)]\<rparr>
   \<and> precedes (Start (osc v))
         (LinearRampToValueAtTime (gain v) (to_double 0.08)
            (to_double (ctx_time s' + to_double 2))) (made s s')
   \<and> precedes (Start (modOsc v))
         (LinearRampToValueAtTime (gain v) (to_double 0.08)
            (to_double (ctx_time s' + to_double 2))) (made s s')"

text \<open>The four references of a voice.\<close>

definition node_ids :: "DroneNode \<Rightarrow> nat list" where
  "node_ids v = [osc v, gain v, modOsc v, modGain v]"

text \<open>
  A page for the examples, before any session: a window with an \<^verbatim>\<open>AudioContext\<close>
  constructor that builds a suspended context at time 0, no node, the hook as
  \<^verbatim>\<open>useRef\<close> and \<^verbatim>\<open>useState\<close> initialise it.
\<close>

definition page :: drone where
  "page =
     \<lparr>has_window = True, random = (\<lambda>_. 1 / 2), draws = 0,
      AudioCtx = Some \<lparr>ctx_state = Suspended, currentTime = 0\<rparr>,
      strict_stop = True, heap = Map.empty, next_id = 0, audio_log = [],
      contextRef = None, nodesRef = [], isActive = False\<rparr>"


text \<open>
  A page in the middle of a session on a strict platform, whose one voice holds an
  oscillator that was stopped before and a modulator that was never started.
\<close>

definition stale_page :: drone where
  "stale_page =
     page\<lparr>heap :=
            [0 \<mapsto> \<lparr>kind = Oscillator, wave = ''sine'', param = 220, automation = [],
                   started = True, stopped = Some 1, outputs = [Input 1]\<rparr>,
             1 \<mapsto> \<lparr>kind = Gain, wave = [], param = 0, automation = [],
                   started = False, stopped = None, outputs = [Destination]\<rparr>,
             2 \<mapsto> \<lparr>kind = Oscillator, wave = ''sine'', param = 0.2, automation = [],
                   started = False, stopped = None, outputs = [Input 3]\<rparr>,
             3 \<mapsto> \<lparr>kind = Gain, wave = [], param = 22, automation = [],
                   started = False, stopped = None, outputs = [Frequency 0]\<rparr>],
          next_id := 4,
          contextRef := Some \<lparr>ctx_state = Running, currentTime = 5\<rparr>,
          nodesRef := [\<lparr>osc = 0, gain = 1, modOsc = 2, modGain = 3\<rparr>],
          isActive := True\<rparr>"

section \<open>Properties of lookup and rendering\<close>


lemma code_units_inj: "code_units a = code_units b \<Longrightarrow> a = b"
proof -
  have "inj (of_char :: char \<Rightarrow> nat)"
    by (rule inj_on_inverseI [where g = char_of]) simp
  then have "inj (map (of_char :: char \<Rightarrow> nat))"
    by simp
  then show "code_units a = code_units b \<Longrightarrow> a = b"
    by (simp add: code_units_def inj_def)
qed

lemma str_eq_iff: "str a = str b \<longleftrightarrow> a = b"
  by (auto simp: str_def dest: code_units_inj)

lemma find_id_None:
  "find (\<lambda>item. str (quote_id item) = v) qs = None \<longleftrightarrow>
     (\<forall>q \<in> set qs. str (quote_id q) \<noteq> v)"
  by (auto simp: find_None_iff)

lemma find_first_by_id:
  "distinct (map quote_id qs) \<Longrightarrow> q \<in> set qs \<Longrightarrow> str (quote_id q) = v \<Longrightarrow>
     find (\<lambda>item. str (quote_id item) = v) qs = Some q"
proof (induction qs)
  case Nil
  then show ?case by simp
next
  case (Cons a qs)
  show ?case
  proof (cases "str (quote_id a) = v")
    case True
    with Cons.prems have "quote_id a = quote_id q"
      by (simp add: str_eq_iff [symmetric])
    with Cons.prems have "a = q"
      by (auto simp: image_iff)
    with True show ?thesis by simp
  next
    case False
    with Cons show ?thesis by auto
  qed
qed

lemma find_satisfies:
  "find P qs = Some q \<Longrightarrow> q \<in> set qs \<and> P q"
  by (induction qs) (auto split: if_splits)

lemma useDailyQuote_found:
  "found qs v = Some q \<Longrightarrow> useDailyQuote qs l v = render q l"
  by (simp add: useDailyQuote_def render_def fetchLocalized_def)

text \<open>
  Claim C7. Quote resolution is total, with a two-level fallback. For every value
  \<open>v\<close> of \<^verbatim>\<open>quoteId\<close>: a quote whose id is \<open>v\<close> is the one rendered (the first such
  quote; the only one when ids are unique); when no quote has that id and the set is
  not empty, the first quote of the set is rendered; when the set is empty, the result
  has empty text and empty source.
\<close>

theorem quote_resolution_total:
  "(\<forall>q. q \<in> set qs \<longrightarrow> str (quote_id q) = v \<longrightarrow> distinct (map quote_id qs) \<longrightarrow>
        useDailyQuote qs l v = render q l)
   \<and> ((\<exists>q \<in> set qs. str (quote_id q) = v) \<longrightarrow>
        (\<exists>q \<in> set qs. str (quote_id q) = v \<and> useDailyQuote qs l v = render q l))
   \<and> ((\<forall>q \<in> set qs. str (quote_id q) \<noteq> v) \<longrightarrow> qs \<noteq> [] \<longrightarrow>
        useDailyQuote qs l v = render (hd qs) l)
   \<and> useDailyQuote [] l v = \<lparr>text_of = Some '''', source_of = Some ''''\<rparr>"
proof (intro conjI allI impI)
  fix q
  assume "q \<in> set qs" "str (quote_id q) = v" "distinct (map quote_id qs)"
  then have "found qs v = Some q"
    by (simp add: found_def find_first_by_id)
  then show "useDailyQuote qs l v = render q l"
    by (rule useDailyQuote_found)
next
  assume "\<exists>q \<in> set qs. str (quote_id q) = v"
  then obtain q where q: "find (\<lambda>item. str (quote_id item) = v) qs = Some q"
    by (cases "find (\<lambda>item. str (quote_id item) = v) qs") (auto simp: find_None_iff)
  then have "found qs v = Some q"
    by (simp add: found_def)
  with find_satisfies [OF q] useDailyQuote_found
  show "\<exists>q \<in> set qs. str (quote_id q) = v \<and> useDailyQuote qs l v = render q l"
    by blast
next
  assume none: "\<forall>q \<in> set qs. str (quote_id q) \<noteq> v" and "qs \<noteq> []"
  then have "found qs v = Some (hd qs)"
    by (cases qs) (auto simp: found_def find_id_None [THEN iffD2])
  then show "useDailyQuote qs l v = render (hd qs) l"
    by (rule useDailyQuote_found)
next
  show "useDailyQuote [] l v = \<lparr>text_of = Some '''', source_of = Some ''''\<rparr>"
    by (simp add: useDailyQuote_def found_def)
qed

theorem quote_resolution_total_witness:
  "useDailyQuote [scenario_q1, scenario_q2] En (str ''q2'') = render scenario_q2 En
   \<and> useDailyQuote [scenario_q1, scenario_q2] En (str ''q9'') = render scenario_q1 En
   \<and> useDailyQuote [scenario_q1, scenario_q2] En JUndefined = render scenario_q1 En
   \<and> useDailyQuote [] En (str ''q2'') = \<lparr>text_of = Some '''', source_of = Some ''''\<rparr>"
proof -
  let ?qs = "[scenario_q1, scenario_q2]"
  have a: "scenario_q2 \<in> set ?qs" "distinct (map quote_id ?qs)"
    by (simp_all add: scenario_q1_def scenario_q2_def)
  have b: "\<forall>q \<in> set ?qs. str (quote_id q) \<noteq> str ''q9''"
          "\<forall>q \<in> set ?qs. str (quote_id q) \<noteq> JUndefined"
    by (simp_all add: scenario_q1_def scenario_q2_def str_def code_units_def)
  have c: "str (quote_id scenario_q2) = str ''q2''"
    by (simp add: scenario_q2_def)
  from a b c
    quote_resolution_total [of ?qs "str ''q2''" En]
    quote_resolution_total [of ?qs "str ''q9''" En]
    quote_resolution_total [of ?qs JUndefined En]
    quote_resolution_total [of "[]" "str ''q2''" En]
  show ?thesis by simp
qed

text \<open>
  Claim C8. For every localizable field and every requested language,
  \<open>fetchLocalized\<close> returns the field's value for that language when there is one, and
  the field's English value otherwise; the hook applies the same rule to the text and
  the source of the quote it found.
\<close>

theorem localized_fallback:
  "(\<forall>v. value language = Some v \<longrightarrow> fetchLocalized value language = Some v)
   \<and> (value language = None \<longrightarrow> fetchLocalized value language = value En)
   \<and> (\<forall>q. found qs qid = Some q \<longrightarrow>
         text_of (useDailyQuote qs language qid) = fetchLocalized (quote_text q) language
       \<and> source_of (useDailyQuote qs language qid) = fetchLocalized (quote_source q) language)"
  by (simp add: fetchLocalized_def useDailyQuote_def)

theorem localized_fallback_witness:
  "fetchLocalized [En \<mapsto> ''A'', Hi \<mapsto> ''H''] Hi = Some ''H''
   \<and> fetchLocalized [En \<mapsto> ''A'', Hi \<mapsto> ''H''] Ta = Some ''A''
   \<and> text_of (useDailyQuote [scenario_q1, scenario_q2] Ta (str ''q2'')) = Some ''B''
   \<and> source_of (useDailyQuote [scenario_q1, scenario_q2] Ta (str ''q2'')) = Some ''S2''"
proof -
  have f: "found [scenario_q1, scenario_q2] (str ''q2'') = Some scenario_q2"
    by (simp add: found_def scenario_q1_def scenario_q2_def str_def code_units_def)
  from f
    localized_fallback [of "[En \<mapsto> ''A'', Hi \<mapsto> ''H'']" Hi
      "[scenario_q1, scenario_q2]" "str ''q2''"]
    localized_fallback [of "[En \<mapsto> ''A'', Hi \<mapsto> ''H'']" Ta
      "[scenario_q1, scenario_q2]" "str ''q2''"]
  show ?thesis
    by (simp add: scenario_q2_def fetchLocalized_def)
qed

section \<open>JSON: the stored record reads back\<close>

















section \<open>JSON: the bound of the parser\<close>

lemma skip_ws_Cons_shorter: "skip_ws s = c # cs \<Longrightarrow> length cs < length s"
proof -
  assume "skip_ws s = c # cs"
  then have "length (dropWhile is_ws s) = Suc (length cs)"
    by (simp add: skip_ws_def)
  moreover have "length (dropWhile is_ws s) \<le> length s"
    by (rule length_dropWhile_le)
  ultimately show ?thesis
    by simp
qed

lemma dropWhile_shorter: "takeWhile P xs \<noteq> [] \<Longrightarrow> length (dropWhile P xs) < length xs"
  by (induction xs) (auto simp: le_imp_less_Suc length_dropWhile_le split: if_splits)

lemma parse_chars_shorter: "parse_chars cs = Some (k, r) \<Longrightarrow> length r < length cs"
proof (induction cs arbitrary: k rule: parse_chars.induct)
  case 1
  then show ?case by simp
next
  case (2 c cs)
  show ?case
  proof (cases "c = CHR 0x22")
    case True
    with "2.prems" show ?thesis by simp
  next
    case nq: False
    show ?thesis
    proof (cases "c = CHR 0x5C")
      case False
      with nq "2.prems" obtain k' where "parse_chars cs = Some (k', r)"
        by (auto split: if_splits)
      with "2.IH"(3) [OF nq False] nq False "2.prems" show ?thesis
        by (auto split: if_splits)
    next
      case bs: True
      with nq "2.prems" obtain e r0 where cs: "cs = e # r0"
        by (cases cs) auto
      show ?thesis
      proof (cases "e = CHR ''u''")
        case True
        with nq bs cs "2.prems" obtain h1 h2 h3 h4 r' n k'
          where r0: "r0 = h1 # h2 # h3 # h4 # r'" and "hex4 h1 h2 h3 h4 = Some n"
            and "parse_chars r' = Some (k', r)"
          by (auto split: list.splits option.splits)
        with "2.IH"(1) [OF nq bs cs True r0] show ?thesis
          using cs by force
      next
        case False
        with nq bs cs "2.prems" obtain n k'
          where "unescape e = Some n" and "parse_chars r0 = Some (k', r)"
          by (auto split: option.splits)
        with "2.IH"(2) [OF nq bs cs False] show ?thesis
          using cs by force
      qed
    qed
  qed
qed

lemma parse_number_shorter: "parse_number s = Some (a, r) \<Longrightarrow> length r < length s"
proof -
  assume p: "parse_number s = Some (a, r)"
  then obtain a1 s1 where 1: "parse_int s = Some (a1, s1)"
    by (auto simp: parse_number_def split: option.splits)
  with p obtain a2 s2 where 2: "parse_frac s1 = Some (a2, s2)"
    by (auto simp: parse_number_def split: option.splits)
  with p 1 obtain a3 where 3: "parse_exp s2 = Some (a3, r)"
    by (auto simp: parse_number_def split: option.splits)
  from 1 have "length s1 < length s"
    by (auto simp: parse_int_def Let_def split: if_splits
          dest!: dropWhile_shorter [of is_digit] intro: less_le_trans)
  moreover from 2 have "length s2 \<le> length s1"
    by (auto simp: parse_frac_def length_dropWhile_le le_SucI split: list.splits if_splits)
  moreover have d: "length (dropWhile is_digit (drop n xs)) \<le> Suc (length xs)" for n xs
    by (rule order_trans [OF length_dropWhile_le]) simp
  from 3 have "length r \<le> length s2"
    by (auto simp: parse_exp_def Let_def d le_SucI [OF le_SucI [OF length_dropWhile_le]]
          split: list.splits if_splits)
  ultimately show ?thesis
    by simp
qed


lemma parse_elements_Suc_cases:
  assumes "parse_elements (Suc m) s = Some (vs, r')"
  obtains v r c cs where "parse_value m s = Some (v, r)" "skip_ws r = c # cs"
    "(c = CHR '','' \<and> (\<exists>vs'. parse_elements m cs = Some (vs', r') \<and> vs = v # vs'))
     \<or> (c = CHR '']'' \<and> r' = cs \<and> vs = [v])"
  using assms by (auto split: option.splits list.splits if_splits)

lemma parse_members_Suc_cases:
  assumes "parse_members (Suc m) s = Some (ms, r')"
  obtains cs0 k r0 r1 v r2 d r3 where
    "skip_ws s = CHR 0x22 # cs0" "parse_chars cs0 = Some (k, r0)"
    "skip_ws r0 = CHR '':'' # r1" "parse_value m r1 = Some (v, r2)" "skip_ws r2 = d # r3"
    "(d = CHR '','' \<and> (\<exists>ms'. parse_members m r3 = Some (ms', r') \<and> ms = (k, v) # ms'))
     \<or> (d = CHR ''}'' \<and> r' = r3 \<and> ms = [(k, v)])"
  using assms by (auto split: option.splits list.splits if_splits)

lemma parse_value_Suc_cases:
  assumes "parse_value (Suc m) s = Some (v, r)"
  obtains c cs where "skip_ws s = c # cs"
    "(c = CHR ''{'' \<and> (\<exists>d ds. skip_ws cs = d # ds \<and>
         ((d = CHR ''}'' \<and> v = JObject [] \<and> r = ds)
          \<or> (d \<noteq> CHR ''}'' \<and> (\<exists>ms. parse_members m cs = Some (ms, r) \<and> v = JObject ms)))))
     \<or> (c = CHR ''['' \<and> (\<exists>d ds. skip_ws cs = d # ds \<and>
         ((d = CHR '']'' \<and> v = JArray [] \<and> r = ds)
          \<or> (d \<noteq> CHR '']'' \<and> (\<exists>vs. parse_elements m cs = Some (vs, r) \<and> v = JArray vs)))))
     \<or> (c \<noteq> CHR ''{'' \<and> c \<noteq> CHR ''['' \<and> length r < length (c # cs)
          \<and> (\<forall>n. parse_value (Suc n) s = Some (v, r)))"
proof -
  from assms obtain c cs where s: "skip_ws s = c # cs"
    by (auto split: list.splits)
  show ?thesis
  proof (cases "c = CHR ''{'' \<or> c = CHR ''[''")
    case True
    with assms s show ?thesis
      by (intro that [OF s]) (auto split: list.splits if_splits)
  next
    case False
    with assms s have same: "parse_value (Suc n) s = Some (v, r)" for n
      by simp
    have "length r < length (c # cs)"
    proof (cases "c = CHR 0x22")
      case True
      with assms s False obtain k where "parse_chars cs = Some (k, r)"
        by auto
      then show ?thesis
        by (auto dest: parse_chars_shorter)
    next
      case nq: False
      show ?thesis
      proof (cases "take 4 (c # cs) = ''true'' \<or> take 5 (c # cs) = ''false''
                    \<or> take 4 (c # cs) = ''null''")
        case True
        with assms s False nq have "r = drop 3 cs \<or> r = drop 4 cs"
          by (auto split: if_splits)
        then show ?thesis
          by auto
      next
        case lit: False
        with assms s False nq obtain a where "parse_number (c # cs) = Some (a, r)"
          by (auto split: if_splits)
        then show ?thesis
          by (rule parse_number_shorter)
      qed
    qed
    with False same show ?thesis
      by (intro that [OF s]) simp
  qed
qed


lemma parse_fuel:
  "(\<forall>s v r. parse_value m s = Some (v, r) \<longrightarrow>
       length r < length s
     \<and> (\<forall>n. 2 * (length s - length r) \<le> n + 1 \<longrightarrow> parse_value n s = Some (v, r)))
   \<and> (\<forall>s vs r. parse_elements m s = Some (vs, r) \<longrightarrow>
       length r < length s
     \<and> (\<forall>n. 2 * (length s - length r) \<le> n + 2 \<longrightarrow> parse_elements n s = Some (vs, r)))
   \<and> (\<forall>s ms r. parse_members m s = Some (ms, r) \<longrightarrow>
       length r < length s
     \<and> (\<forall>n. 2 * (length s - length r) \<le> n + 2 \<longrightarrow> parse_members n s = Some (ms, r)))"
proof (induction m)
  case 0
  show ?case by simp
next
  case (Suc m)
  then have V: "\<And>s v r n. parse_value m s = Some (v, r) \<Longrightarrow> length r < length s"
    and Vn: "\<And>s v r n. parse_value m s = Some (v, r) \<Longrightarrow>
               2 * (length s - length r) \<le> n + 1 \<Longrightarrow> parse_value n s = Some (v, r)"
    and E: "\<And>s vs r. parse_elements m s = Some (vs, r) \<Longrightarrow> length r < length s"
    and En: "\<And>s vs r n. parse_elements m s = Some (vs, r) \<Longrightarrow>
               2 * (length s - length r) \<le> n + 2 \<Longrightarrow> parse_elements n s = Some (vs, r)"
    and M: "\<And>s ms r. parse_members m s = Some (ms, r) \<Longrightarrow> length r < length s"
    and Mn: "\<And>s ms r n. parse_members m s = Some (ms, r) \<Longrightarrow>
               2 * (length s - length r) \<le> n + 2 \<Longrightarrow> parse_members n s = Some (ms, r)"
    by blast+
  have val: "length r < length s
      \<and> (\<forall>n. 2 * (length s - length r) \<le> n + 1 \<longrightarrow> parse_value n s = Some (v, r))"
    if pv: "parse_value (Suc m) s = Some (v, r)" for s v r
  proof -
    from pv obtain c cs where s: "skip_ws s = c # cs"
      and alt: "(c = CHR ''{'' \<and> (\<exists>d ds. skip_ws cs = d # ds \<and>
         ((d = CHR ''}'' \<and> v = JObject [] \<and> r = ds)
          \<or> (d \<noteq> CHR ''}'' \<and> (\<exists>ms. parse_members m cs = Some (ms, r) \<and> v = JObject ms)))))
     \<or> (c = CHR ''['' \<and> (\<exists>d ds. skip_ws cs = d # ds \<and>
         ((d = CHR '']'' \<and> v = JArray [] \<and> r = ds)
          \<or> (d \<noteq> CHR '']'' \<and> (\<exists>vs. parse_elements m cs = Some (vs, r) \<and> v = JArray vs)))))
     \<or> (c \<noteq> CHR ''{'' \<and> c \<noteq> CHR ''['' \<and> length r < length (c # cs)
          \<and> (\<forall>n. parse_value (Suc n) s = Some (v, r)))"
      by (rule parse_value_Suc_cases)
    from s have cs: "length cs < length s"
      by (rule skip_ws_Cons_shorter)
    from s have le: "length (c # cs) \<le> length s"
      using length_dropWhile_le [of is_ws s] by (simp add: skip_ws_def)
    from alt consider
      (empty_object) ds where "c = CHR ''{''" "skip_ws cs = CHR ''}'' # ds" "v = JObject []" "r = ds"
      | (object) d ds ms where "c = CHR ''{''" "skip_ws cs = d # ds" "d \<noteq> CHR ''}''"
          "parse_members m cs = Some (ms, r)" "v = JObject ms"
      | (empty_array) ds where "c = CHR ''[''" "skip_ws cs = CHR '']'' # ds" "v = JArray []" "r = ds"
      | (array) d ds vs where "c = CHR ''[''" "skip_ws cs = d # ds" "d \<noteq> CHR '']''"
          "parse_elements m cs = Some (vs, r)" "v = JArray vs"
      | (scalar) "c \<noteq> CHR ''{''" "c \<noteq> CHR ''[''" "length r < length (c # cs)"
          "\<And>n. parse_value (Suc n) s = Some (v, r)"
      by blast
    then show ?thesis
    proof cases
      case empty_object
      from empty_object(2) have "length ds < length cs"
        by (rule skip_ws_Cons_shorter)
      with cs have short: "length r < length s"
        using empty_object(4) by simp
      have "parse_value n s = Some (v, r)" if "2 * (length s - length r) \<le> n + 1" for n
      proof -
        from that short obtain n' where "n = Suc n'"
          by (cases n) auto
        with s empty_object show ?thesis
          by simp
      qed
      with short show ?thesis by blast
    next
      case empty_array
      from empty_array(2) have "length ds < length cs"
        by (rule skip_ws_Cons_shorter)
      with cs have short: "length r < length s"
        using empty_array(4) by simp
      have "parse_value n s = Some (v, r)" if "2 * (length s - length r) \<le> n + 1" for n
      proof -
        from that short obtain n' where "n = Suc n'"
          by (cases n) auto
        with s empty_array show ?thesis
          by simp
      qed
      with short show ?thesis by blast
    next
      case object
      from M [OF object(4)] cs have short: "length r < length s" "length r < length cs"
        by simp_all
      have "parse_value n s = Some (v, r)" if "2 * (length s - length r) \<le> n + 1" for n
      proof -
        from that short obtain n' where n: "n = Suc n'"
          by (cases n) auto
        with that short cs have "2 * (length cs - length r) \<le> n' + 2"
          by arith
        with object(4) have "parse_members n' cs = Some (ms, r)"
          by (rule Mn)
        with s object n show ?thesis
          by simp
      qed
      with short show ?thesis by blast
    next
      case array
      from E [OF array(4)] cs have short: "length r < length s" "length r < length cs"
        by simp_all
      have "parse_value n s = Some (v, r)" if "2 * (length s - length r) \<le> n + 1" for n
      proof -
        from that short obtain n' where n: "n = Suc n'"
          by (cases n) auto
        with that short cs have "2 * (length cs - length r) \<le> n' + 2"
          by arith
        with array(4) have "parse_elements n' cs = Some (vs, r)"
          by (rule En)
        with s array n show ?thesis
          by simp
      qed
      with short show ?thesis by blast
    next
      case scalar
      from scalar(3) le have short: "length r < length s"
        by simp
      have "parse_value n s = Some (v, r)" if "2 * (length s - length r) \<le> n + 1" for n
      proof -
        from that short obtain n' where "n = Suc n'"
          by (cases n) auto
        with scalar(4) show ?thesis
          by simp
      qed
      with short show ?thesis by blast
    qed
  qed
  have els: "length r' < length s
      \<and> (\<forall>n. 2 * (length s - length r') \<le> n + 2 \<longrightarrow> parse_elements n s = Some (vs, r'))"
    if pe: "parse_elements (Suc m) s = Some (vs, r')" for s vs r'
  proof -
    from pe obtain v r c cs where v: "parse_value m s = Some (v, r)" and r: "skip_ws r = c # cs"
      and alt: "(c = CHR '','' \<and> (\<exists>vs'. parse_elements m cs = Some (vs', r') \<and> vs = v # vs'))
        \<or> (c = CHR '']'' \<and> r' = cs \<and> vs = [v])"
      by (rule parse_elements_Suc_cases)
    from V [OF v] have rs: "length r < length s" .
    from r have cr: "length cs < length r"
      by (rule skip_ws_Cons_shorter)
    from alt show ?thesis
    proof (elim disjE conjE exE)
      fix vs'
      assume c: "c = CHR '',''" and e: "parse_elements m cs = Some (vs', r')" and vs: "vs = v # vs'"
      from E [OF e] have rc: "length r' < length cs" .
      with rs cr have short: "length r' < length s"
        by simp
      have "parse_elements n s = Some (vs, r')" if "2 * (length s - length r') \<le> n + 2" for n
      proof -
        from that rs cr rc obtain n' where n: "n = Suc n'"
          by (cases n) auto
        with that rs cr rc have "2 * (length s - length r) \<le> n' + 1"
          and "2 * (length cs - length r') \<le> n' + 2"
          by arith+
        with v e have "parse_value n' s = Some (v, r)" "parse_elements n' cs = Some (vs', r')"
          by (auto intro: Vn En)
        with r c vs n show ?thesis
          by simp
      qed
      with short show ?thesis by blast
    next
      assume c: "c = CHR '']''" and r': "r' = cs" and vs: "vs = [v]"
      from rs cr r' have short: "length r' < length s"
        by simp
      have "parse_elements n s = Some (vs, r')" if "2 * (length s - length r') \<le> n + 2" for n
      proof -
        from that rs cr r' obtain n' where n: "n = Suc n'"
          by (cases n) auto
        have "2 * (length s - length r) \<le> n' + 1"
          using that rs cr unfolding r' n by arith
        with v have "parse_value n' s = Some (v, r)"
          by (rule Vn)
        with r c vs r' n show ?thesis
          by simp
      qed
      with short show ?thesis by blast
    qed
  qed
  have mems: "length r' < length s
      \<and> (\<forall>n. 2 * (length s - length r') \<le> n + 2 \<longrightarrow> parse_members n s = Some (ms, r'))"
    if pm: "parse_members (Suc m) s = Some (ms, r')" for s ms r'
  proof -
    from pm obtain cs0 k r0 r1 v r2 d r3 where
      s: "skip_ws s = CHR 0x22 # cs0" and k: "parse_chars cs0 = Some (k, r0)"
      and r0: "skip_ws r0 = CHR '':'' # r1" and v: "parse_value m r1 = Some (v, r2)"
      and r2: "skip_ws r2 = d # r3"
      and alt: "(d = CHR '','' \<and> (\<exists>ms'. parse_members m r3 = Some (ms', r') \<and> ms = (k, v) # ms'))
        \<or> (d = CHR ''}'' \<and> r' = r3 \<and> ms = [(k, v)])"
      by (rule parse_members_Suc_cases)
    from s k r0 V [OF v] r2
    have len: "length cs0 < length s" "length r0 < length cs0" "length r1 < length r0"
      "length r2 < length r1" "length r3 < length r2"
      by (auto dest: skip_ws_Cons_shorter parse_chars_shorter)
    from alt show ?thesis
    proof (elim disjE conjE exE)
      fix ms'
      assume d: "d = CHR '',''" and e: "parse_members m r3 = Some (ms', r')"
        and ms: "ms = (k, v) # ms'"
      from M [OF e] have rc: "length r' < length r3" .
      with len have short: "length r' < length s"
        by simp
      have "parse_members n s = Some (ms, r')" if "2 * (length s - length r') \<le> n + 2" for n
      proof -
        from that len rc obtain n' where n: "n = Suc n'"
          by (cases n) auto
        with that len rc have "2 * (length r1 - length r2) \<le> n' + 1"
          and "2 * (length r3 - length r') \<le> n' + 2"
          by arith+
        with v e have "parse_value n' r1 = Some (v, r2)" "parse_members n' r3 = Some (ms', r')"
          by (auto intro: Vn Mn)
        with s k r0 r2 d ms n show ?thesis
          by simp
      qed
      with short show ?thesis by blast
    next
      assume d: "d = CHR ''}''" and r': "r' = r3" and ms: "ms = [(k, v)]"
      from len r' have short: "length r' < length s"
        by simp
      have "parse_members n s = Some (ms, r')" if "2 * (length s - length r') \<le> n + 2" for n
      proof -
        from that len r' obtain n' where n: "n = Suc n'"
          by (cases n) auto
        have "2 * (length r1 - length r2) \<le> n' + 1"
          using that len unfolding r' n by arith
        with v have "parse_value n' r1 = Some (v, r2)"
          by (rule Vn)
        with s k r0 r2 d ms r' n show ?thesis
          by simp
      qed
      with short show ?thesis by blast
    qed
  qed
  from val els mems show ?case
    by blast
qed

text \<open>
  The bound of \<open>JSON_parse\<close> is enough: a text that parses with any bound parses, to
  the same value, with the bound \<open>JSON_parse\<close> gives. So \<open>None\<close> is a syntax error, never
  a lack of fuel.
\<close>

lemma JSON_parse_enough:
  assumes "parse_value m s = Some (v, r)" and "skip_ws r = []"
  shows "JSON_parse s = Some v"
proof -
  from parse_fuel [of m] assms(1)
  have "\<forall>n. 2 * (length s - length r) \<le> n + 1 \<longrightarrow> parse_value n s = Some (v, r)"
    by blast
  then have "2 * (length s - length r) \<le> (2 * length s + 2) + 1 \<longrightarrow>
      parse_value (2 * length s + 2) s = Some (v, r)"
    by (rule spec)
  moreover have "2 * (length s - length r) \<le> (2 * length s + 2) + 1"
    by simp
  ultimately have "parse_value (2 * length s + 2) s = Some (v, r)"
    by (rule mp)
  with assms(2) show ?thesis
    by (simp add: JSON_parse_def del: parse_value.simps)
qed

section \<open>The selector: reading, reusing, selecting\<close>

lemma read_stored_world:
  "snd (read_stored w) =
     (if storage_available w then w\<lparr>calls := calls w @ [GetItem STORAGE_KEY]\<rparr> else w)"
  by (simp add: read_stored_def getItem_def split: option.splits)

lemma read_stored_value:
  "fst (read_stored w) =
     (if \<not> storage_available w then JNull
      else case storage w STORAGE_KEY of
             None \<Rightarrow> JNull
           | Some raw \<Rightarrow>
               if raw = [] then JNull
               else (case JSON_parse raw of None \<Rightarrow> JNull | Some v \<Rightarrow> v))"
  by (simp add: read_stored_def getItem_def split: option.splits)

lemma get_prop_JNull: "get_prop JNull k \<noteq> str t"
  by (simp add: get_prop_def str_def)



lemma resolve_fresh:
  assumes "has_window w"
    and "get_prop (fst (read_stored w)) ''date'' \<noteq> str (localDate (LocalTZA w) (clock w))"
  shows "resolveQuoteId qs w =
           select_fresh qs (localDate (LocalTZA w) (clock w)) (snd (read_stored w))"
proof -
  obtain s a where "read_stored w = (s, a)"
    by (cases "read_stored w")
  with assms show ?thesis
    by (simp add: resolveQuoteId_def Let_def)
qed






lemma select_fresh_returns:
  assumes "storage_available a" "storage_writable a"
  shows "\<exists>v. fst (select_fresh qs t a) = Inr v"
  using assms
  by (simp add: select_fresh_def Math_random_def setItem_def split: option.splits)



section \<open>The selector at concrete inputs\<close>

lemma dec_numeral:
  "dec (numeral w) k = dec (pred_numeral w) (k div 10) @ [''0123456789'' ! (k mod 10)]"
proof -
  have "numeral w = Suc (pred_numeral w)"
    by (rule numeral_eq_Suc)
  then show ?thesis
    by (simp only: dec.simps)
qed

lemma civil_19797: "civil_from_days 19797 = (2024, 3, 15)"
  unfolding civil_from_days_def Let_def by simp

lemma civil_19796: "civil_from_days 19796 = (2024, 3, 14)"
  unfolding civil_from_days_def Let_def by simp

lemma days_2024_03_15: "days_from_civil 2024 3 15 = 19797"
  unfolding days_from_civil_def Let_def by simp

lemma iso_local_midnight_IST: "take 10 (toISOString 1710441000000) = ''2024-03-14''"
  unfolding toISOString_def msPerDay_def Let_def by (simp add: civil_19796 dec_numeral)



text \<open>
  Claim C1 (fails on the code). At noon of 2024-03-15 in a zone five and a half hours
  east of UTC (\<^verbatim>\<open>fixed_zone 330\<close>, the time value 1710484200000), the local calendar date is
  2024-03-15, and the date the selector compares and persists is 2024-03-14: local
  midnight, written by \<^verbatim>\<open>toISOString\<close>, is 18:30 of the previous day in UTC.
\<close>

theorem localDate_east_of_UTC:
  "local_fields (fixed_zone 330) 1710484200000 = (2024, 2, 15)
   \<and> local_calendar_date (fixed_zone 330) 1710484200000 = ''2024-03-15''
   \<and> localDate (fixed_zone 330) 1710484200000 = ''2024-03-14''"
proof -
  have f: "local_fields (fixed_zone 330) 1710484200000 = (2024, 2, 15)"
    unfolding local_fields_def msPerDay_def fixed_zone_def by (simp add: civil_19797)
  have d: "Date_of_fields (fixed_zone 330) 2024 2 15 = 1710441000000"
    unfolding Date_of_fields_def msPerDay_def fixed_zone_def Let_def by (simp add: days_2024_03_15)
  have l: "localDate (fixed_zone 330) 1710484200000 = ''2024-03-14''"
    unfolding localDate_def by (simp add: f d iso_local_midnight_IST)
  have c: "local_calendar_date (fixed_zone 330) 1710484200000 = ''2024-03-15''"
    unfolding local_calendar_date_def msPerDay_def fixed_zone_def by (simp add: civil_19797 dec_numeral)
  from f c l show ?thesis by simp
qed

text \<open>
  Claim C2 (fails on the code). The storage can be read and refuses the write; there
  is no record, the quote set has two quotes. \<^verbatim>\<open>setItem\<close> throws, nothing catches
  it, and the exception leaves \<^verbatim>\<open>resolveQuoteId\<close>.
\<close>

theorem write_failure_leaves_selector:
  "fst (resolveQuoteId [scenario_q1, scenario_q2] (browser\<lparr>storage_writable := False\<rparr>)) =
     Inl QuotaExceededError"
proof -
  let ?w = "browser\<lparr>storage_writable := False\<rparr>"
  have "get_prop (fst (read_stored ?w)) ''date'' \<noteq> str (localDate (LocalTZA ?w) (clock ?w))"
    by (simp add: read_stored_value browser_def get_prop_JNull)
  moreover have "has_window ?w"
    by (simp add: browser_def)
  ultimately have "resolveQuoteId [scenario_q1, scenario_q2] ?w =
      select_fresh [scenario_q1, scenario_q2] (localDate (LocalTZA ?w) (clock ?w)) (snd (read_stored ?w))"
    by (rule resolve_fresh [rotated])
  then show ?thesis
    by (simp add: read_stored_world select_fresh_def Math_random_def browser_def element_def setItem_def)
qed

text \<open>
  Claim C10. Without a window (rendering on the server), \<^verbatim>\<open>resolveQuoteId\<close> returns
  the id of the first quote, or the empty string when there is no quote, and leaves
  the world as it was: no storage call, no random number drawn.
\<close>

theorem no_window_first_quote:
  "\<not> has_window w \<Longrightarrow>
     resolveQuoteId qs w = (Inr (str (case qs of [] \<Rightarrow> '''' | q # _ \<Rightarrow> quote_id q)), w)"
  by (simp add: resolveQuoteId_def split: list.splits)

theorem no_window_first_quote_witness:
  "\<not> has_window (browser\<lparr>has_window := False\<rparr>)
   \<and> resolveQuoteId [scenario_q1, scenario_q2] (browser\<lparr>has_window := False\<rparr>) =
       (Inr (str ''q1''), browser\<lparr>has_window := False\<rparr>)
   \<and> resolveQuoteId [] (browser\<lparr>has_window := False\<rparr>) =
       (Inr (str ''''), browser\<lparr>has_window := False\<rparr>)
   \<and> calls (snd (resolveQuoteId [scenario_q1, scenario_q2] (browser\<lparr>has_window := False\<rparr>))) = []
   \<and> draws (snd (resolveQuoteId [scenario_q1, scenario_q2] (browser\<lparr>has_window := False\<rparr>))) = 0"
proof -
  have h: "\<not> has_window (browser\<lparr>has_window := False\<rparr>)"
    by simp
  from h no_window_first_quote [OF h, of "[scenario_q1, scenario_q2]"]
       no_window_first_quote [OF h, of "[]"]
  show ?thesis
    by (simp add: scenario_q1_def browser_def)
qed

section \<open>Stored records\<close>










section \<open>Two calls on one day\<close>

















section \<open>Rounding\<close>




lemma rne_nearest:
  assumes "\<bar>y - of_int n\<bar> < 1 / 2"
  shows "rne y = n"
proof -
  from assms have "\<lfloor>y\<rfloor> = n \<or> \<lfloor>y\<rfloor> = n - 1"
    by (auto simp: floor_eq_iff abs_less_iff)
  with assms show ?thesis
    by (auto simp: rne_def Let_def abs_less_iff)
qed


lemma exponent_eq:
  assumes "0 < x" "2 powi e \<le> x" "x < 2 powi (e + 1)"
  shows "\<lfloor>log 2 x\<rfloor> = e"
proof -
  have p: "2 powr real_of_int k = 2 powi k" for k
    by (rule powr_real_of_int') simp_all
  from assms(2,3) have "2 powr real_of_int e \<le> x \<and> x < 2 powr real_of_int (e + 1)"
    by (simp only: p)
  with assms(1) show ?thesis
    using floor_log_eq_powr_iff [of x 2 e] by simp
qed

lemma fl_0: "fl p emin 0 = 0"
  by (simp add: fl_def)






lemma fl_value:
  assumes "2 powi e \<le> \<bar>x\<bar>" "\<bar>x\<bar> < 2 powi (e + 1)" "emin \<le> e"
    and "\<bar>x / 2 powi (e - int p + 1) - of_int n\<bar> < 1 / 2"
    and "v = of_int n * 2 powi (e - int p + 1)"
  shows "fl p emin x = v"
proof -
  have "(0::real) < 2 powi e"
    by simp
  with assms(1) have x: "0 < \<bar>x\<bar>"
    by linarith
  then have "\<lfloor>log 2 \<bar>x\<bar>\<rfloor> = e"
    using assms(1,2) by (rule exponent_eq)
  with assms(3) have "quantum p emin x = e - int p + 1"
    by (simp add: quantum_def)
  moreover from assms(4) have "rne (x / 2 powi (e - int p + 1)) = n"
    by (rule rne_nearest)
  ultimately show ?thesis
    using x assms(5) by (simp add: fl_def)
qed




lemma double_0_0001: "to_double 0.0001 = 7378697629483821 / 2 ^ 66"
  unfolding to_double_def
  by (rule fl_value [where e = "- 14" and n = 7378697629483821]) simp_all

lemma double_0_5: "to_double 0.5 = 1 / 2 ^ 1"
  unfolding to_double_def
  by (rule fl_value [where e = "- 1" and n = 4503599627370496]) simp_all

lemma double_0_6: "to_double 0.6 = 5404319552844595 / 2 ^ 53"
  unfolding to_double_def
  by (rule fl_value [where e = "- 1" and n = 5404319552844595]) simp_all

lemma double_2: "to_double 2 = 2"
  unfolding to_double_def
  by (rule fl_value [where e = 1 and n = 4503599627370496]) simp_all








lemma float_0_0001: "to_float (to_double 0.0001) = 13743895 / 2 ^ 37"
  unfolding double_0_0001
  unfolding to_float_def
  by (rule fl_value [where e = "- 14" and n = 13743895]) simp_all





















lemma to_double_zero: "to_double 0 = 0"
  by (simp add: to_double_def fl_0)

lemma to_float_zero: "to_float 0 = 0"
  by (simp add: to_float_def fl_0)


section \<open>The drone: one voice\<close>

lemma voice_result:
  "voice freq index s =
     Done (s\<lparr>draws := Suc (draws s),
             heap := (heap s)
               (next_id s \<mapsto>
                  \<lparr>kind = Oscillator, wave = ''sine'', param = to_float freq, automation = [],
                   started = True, stopped = None, outputs = [Input (next_id s + 1)]\<rparr>,
                next_id s + 1 \<mapsto>
                  \<lparr>kind = Gain, wave = [], param = 0,
                   automation =
                     [LinearRamp (to_float (to_double 0.08))
                        (to_double (ctx_time s + to_double 2))],
                   started = False, stopped = None, outputs = [Destination]\<rparr>,
                next_id s + 2 \<mapsto>
                  \<lparr>kind = Oscillator, wave = ''sine'',
                   param = to_float (detune_rate (random s (draws s))), automation = [],
                   started = True, stopped = None, outputs = [Input (next_id s + 3)]\<rparr>,
                next_id s + 3 \<mapsto>
                  \<lparr>kind = Gain, wave = [],
                   param = to_float (to_double (freq * spread index)), automation = [],
                   started = False, stopped = None, outputs = [Frequency (next_id s)]\<rparr>),
             next_id := next_id s + 4,
             audio_log := audio_log s @
               [CreateOscillator (next_id s), CreateGain (next_id s + 1),
                SetType (next_id s) ''sine'', SetValue (next_id s) freq,
                CreateOscillator (next_id s + 2), SetType (next_id s + 2) ''sine'',
                SetValue (next_id s + 2) (detune_rate (random s (draws s))),
                CreateGain (next_id s + 3),
                SetValue (next_id s + 3) (to_double (freq * spread index)),
                Connect (next_id s + 2) (Input (next_id s + 3)),
                Connect (next_id s + 3) (Frequency (next_id s)),
                Start (next_id s + 2),
                SetValue (next_id s + 1) 0,
                Connect (next_id s) (Input (next_id s + 1)),
                Connect (next_id s + 1) Destination,
                Start (next_id s),
                LinearRampToValueAtTime (next_id s + 1) (to_double 0.08)
                  (to_double (ctx_time s + to_double 2))]\<rparr>)"
  unfolding voice_def Let_def
  by (simp add: createOscillator_def createGain_def set_type_def set_value_def connect_def
      osc_start_def linearRampToValueAtTime_def Math_random_def called_def on_node_def
      ctx_time_def fun_eq_iff to_double_zero to_float_zero)

section \<open>The drone: sessions and stopping\<close>

lemma all_less_4: "(\<forall>i<4. P i) \<longleftrightarrow> P (0::nat) \<and> P 1 \<and> P 2 \<and> P 3"
proof -
  have "i < 4 \<longleftrightarrow> i = 0 \<or> i = 1 \<or> i = 2 \<or> i = 3" for i :: nat
    by arith
  then show ?thesis
    by auto
qed

lemma three: "n + 3 = Suc (Suc (Suc n))"
  by simp

lemma voices_session:
  "\<exists>s' vs. forEach_voice DRONE_FREQUENCIES 0 (s, []) = Done (s', vs)
     \<and> length vs = 4
     \<and> distinct (concat (map node_ids vs))
     \<and> contextRef s' = contextRef s
     \<and> has_window s' = has_window s \<and> AudioCtx s' = AudioCtx s
     \<and> audio_log s' = audio_log s @ made s s'
     \<and> (\<forall>i<4. session_voice s s' i (to_float (detune_rate (random s (draws s + i)))) (vs ! i))"
  by (simp add: DRONE_FREQUENCIES_def voice_result all_less_4 session_voice_def voice_node_def
        node_ids_def made_def ctx_time_def three spread_def)

lemma precedes_in: "precedes a b xs \<Longrightarrow> b \<in> set xs"
  by (induction xs) (auto split: if_splits)

lemma precedes_append: "precedes a b ys \<Longrightarrow> precedes a b (xs @ ys)"
  by (induction xs) (auto dest: precedes_in)

lemma session_voice_transfer:
  assumes "session_voice s2 s4 i r v"
    and "heap s' = heap s4" "contextRef s' = contextRef s4"
    and "made s s' = pre @ made s2 s4"
  shows "session_voice s s' i r v"
  using assms by (simp add: session_voice_def ctx_time_def precedes_append)

lemma start_prepare:
  assumes "has_window s" "AudioCtx s = Some fresh"
  shows "\<exists>s2 pre.
           start s =
             (case forEach_voice DRONE_FREQUENCIES 0 (s2, []) of
                Threw e (s3, oscillators) \<Rightarrow> Threw e s3
              | Done (s3, oscillators) \<Rightarrow> Done (s3\<lparr>nodesRef := oscillators, isActive := True\<rparr>))
         \<and> random s2 = random s \<and> draws s2 = draws s
         \<and> has_window s2 = has_window s \<and> AudioCtx s2 = AudioCtx s
         \<and> audio_log s2 = audio_log s @ pre"
  using assms
  by (auto simp: start_def Let_def resume_def called_def split: option.splits)

lemma start_session:
  assumes "has_window s" "AudioCtx s = Some fresh"
  shows "\<exists>s'. start s = Done s' \<and> isActive s' \<and> length (nodesRef s') = 4
           \<and> distinct (concat (map node_ids (nodesRef s')))
           \<and> has_window s' \<and> AudioCtx s' = Some fresh
           \<and> (\<forall>i<4. session_voice s s' i (to_float (detune_rate (random s (draws s + i))))
                  (nodesRef s' ! i))"
proof -
  from start_prepare [OF assms]
  obtain s2 pre where st: "start s =
             (case forEach_voice DRONE_FREQUENCIES 0 (s2, []) of
                Threw e (s3, oscillators) \<Rightarrow> Threw e s3
              | Done (s3, oscillators) \<Rightarrow> Done (s3\<lparr>nodesRef := oscillators, isActive := True\<rparr>))"
    and r: "random s2 = random s" "draws s2 = draws s"
    and k: "has_window s2 = has_window s" "AudioCtx s2 = AudioCtx s"
    and l: "audio_log s2 = audio_log s @ pre"
    by blast
  from voices_session [of s2]
  obtain s4 vs where v: "forEach_voice DRONE_FREQUENCIES 0 (s2, []) = Done (s4, vs)"
    and n: "length vs = 4" and d: "distinct (concat (map node_ids vs))"
    and k4: "has_window s4 = has_window s2" "AudioCtx s4 = AudioCtx s2"
    and l4: "audio_log s4 = audio_log s2 @ made s2 s4"
    and sp: "\<forall>i<4. session_voice s2 s4 i (to_float (detune_rate (random s2 (draws s2 + i)))) (vs ! i)"
    by blast
  let ?s' = "s4\<lparr>nodesRef := vs, isActive := True\<rparr>"
  have m: "made s ?s' = pre @ made s2 s4"
    by (simp add: made_def [of s] l l4)
  have "\<forall>i<4. session_voice s ?s' i (to_float (detune_rate (random s (draws s + i)))) (vs ! i)"
  proof (intro allI impI)
    fix i :: nat
    assume "i < 4"
    with sp r have "session_voice s2 s4 i (to_float (detune_rate (random s (draws s + i)))) (vs ! i)"
      by simp
    then show "session_voice s ?s' i (to_float (detune_rate (random s (draws s + i)))) (vs ! i)"
      by (rule session_voice_transfer) (simp_all add: m)
  qed
  with st v n d k k4 assms show ?thesis
    by simp
qed

lemma start_unavailable:
  "\<not> has_window s \<or> AudioCtx s = None \<Longrightarrow> start s = Done s"
  by (auto simp: start_def)

lemma try_catch_final: "try_catch body s = Done (final (body s))"
  by (cases "body s") (simp_all add: try_catch_def)

lemma steps_keep:
  assumes "\<And>f s. f \<in> set fs \<Longrightarrow> contextRef (final (f s)) = contextRef s"
  shows "contextRef (final (steps fs s)) = contextRef s"
  using assms
proof (induction fs arbitrary: s)
  case Nil
  show ?case by simp
next
  case (Cons f fs)
  have f: "contextRef (final (f s)) = contextRef s"
    by (rule Cons.prems) simp
  show ?case
  proof (cases "f s")
    case (Done s1)
    with f have "contextRef s1 = contextRef s"
      by simp
    moreover have "contextRef (final (steps fs s1)) = contextRef s1"
      by (rule Cons.IH) (simp add: Cons.prems)
    ultimately show ?thesis
      using Done by simp
  next
    case (Threw e s1)
    with f show ?thesis
      by simp
  qed
qed

lemma ramp_keeps: "contextRef (final (exponentialRampToValueAtTime i v t s)) = contextRef s"
  by (simp add: exponentialRampToValueAtTime_def called_def on_node_def)

lemma osc_stop_keeps: "contextRef (final (osc_stop i t s)) = contextRef s"
  by (simp add: osc_stop_def called_def on_node_def split: option.splits)

lemma disconnect_result:
  "disconnect i s = Done (called (Disconnect i) (on_node i (\<lambda>n. n\<lparr>outputs := []\<rparr>) s))"
  by (simp add: disconnect_def)

lemma stop_node_done: "\<exists>s'. stop_node t v s = Done s' \<and> contextRef s' = contextRef s"
proof -
  let ?body = "steps
             [exponentialRampToValueAtTime (gain v) (to_double 0.0001)
                (to_double (t + to_double 0.5)),
              exponentialRampToValueAtTime (modGain v) (to_double 0.0001)
                (to_double (t + to_double 0.5)),
              osc_stop (osc v) (to_double (t + to_double 0.6)),
              osc_stop (modOsc v) (to_double (t + to_double 0.6))]"
  have "contextRef (final (?body s)) = contextRef s"
    by (rule steps_keep) (auto simp: ramp_keeps osc_stop_keeps)
  then show ?thesis
    by (simp add: stop_node_def try_catch_final disconnect_result called_def on_node_def)
qed

lemma stop_nodes_done:
  "\<exists>s'. steps (map (stop_node t) vs) s = Done s' \<and> contextRef s' = contextRef s"
proof (induction vs arbitrary: s)
  case Nil
  show ?case by simp
next
  case (Cons v vs)
  from stop_node_done [of t v s]
  obtain s1 where 1: "stop_node t v s = Done s1" "contextRef s1 = contextRef s"
    by blast
  from Cons [of s1]
  obtain s' where "steps (map (stop_node t) vs) s1 = Done s'" "contextRef s' = contextRef s1"
    by blast
  with 1 show ?case
    by simp
qed

lemma stop_idle:
  "Idle s \<Longrightarrow> stop s = Done (if contextRef s \<noteq> None then suspend s else s)"
  by (auto simp: Idle_def stop_def Let_def suspend_def called_def)

lemma stop_lands_idle:
  "\<exists>s'. stop s = Done s' \<and> Idle s'
      \<and> (contextRef s' \<noteq> None \<longrightarrow> suspend s' = s'\<lparr>audio_log := audio_log s' @ [Suspend]\<rparr>)"
proof -
  from stop_nodes_done [of "ctx_time s" "nodesRef s" s]
  obtain s1 where "steps (map (stop_node (ctx_time s)) (nodesRef s)) s = Done s1"
    by blast
  then show ?thesis
    by (cases "contextRef s1")
       (auto simp: stop_def Let_def Idle_def suspend_def called_def)
qed


lemma toggle_step:
  assumes "Idle s \<or> Sounding s"
  shows "\<exists>s'. toggle_after_render s = Done s' \<and> (Idle s' \<or> Sounding s')"
proof (cases "isActive s")
  case True
  with stop_lands_idle [of s] show ?thesis
    by (auto simp: toggle_after_render_def toggle_def)
next
  case False
  with assms have idle: "Idle s"
    by (simp add: Sounding_def)
  show ?thesis
  proof (cases "has_window s \<and> AudioCtx s \<noteq> None")
    case True
    then obtain fresh where "has_window s" "AudioCtx s = Some fresh"
      by auto
    from start_session [OF this] False show ?thesis
      by (auto simp: toggle_after_render_def toggle_def Sounding_def)
  next
    case False
    then have "start s = Done s"
      by (intro start_unavailable) simp
    with idle \<open>\<not> isActive s\<close> show ?thesis
      by (simp add: toggle_after_render_def toggle_def)
  qed
qed

lemma toggles:
  assumes "Idle s \<or> Sounding s"
  shows "\<exists>s'. steps (replicate n toggle_after_render) s = Done s' \<and> (Idle s' \<or> Sounding s')"
  using assms
proof (induction n arbitrary: s)
  case 0
  then show ?case by simp
next
  case (Suc n)
  from toggle_step [OF Suc.prems]
  obtain s1 where 1: "toggle_after_render s = Done s1" "Idle s1 \<or> Sounding s1"
    by blast
  from Suc.IH [OF 1(2)] 1(1) show ?case
    by simp
qed

text \<open>
  One closure called twice, with no render between the calls: the second call runs
  \<^verbatim>\<open>start\<close> again, on the session of the first.
\<close>

lemma toggle_same_closure:
  assumes "has_window s" "AudioCtx s = Some fresh"
  shows "\<exists>s1 s2. toggle False s = Done s1 \<and> isActive s1
           \<and> toggle False s1 = Done s2 \<and> Sounding s2"
proof -
  from start_session [OF assms]
  obtain s1 where 1: "start s = Done s1" "isActive s1" "has_window s1" "AudioCtx s1 = Some fresh"
    by blast
  from start_session [OF 1(3,4)]
  obtain s2 where "start s1 = Done s2" "isActive s2" "length (nodesRef s2) = 4"
    by blast
  with 1 show ?thesis
    by (simp add: toggle_def Sounding_def)
qed

section \<open>The drone: the claims\<close>


text \<open>
  Claim C5, as amended. The synthesizer is Idle, and every call of \<^verbatim>\<open>toggle()\<close> is a
  call of the closure of the latest render, the component having rendered since the
  call before. Where a window and an \<^verbatim>\<open>AudioContext\<close> constructor exist, \<^verbatim>\<open>toggle()\<close>
  completes in Sounding with exactly 4 voices, one per base frequency, each four
  distinct nodes (oscillator, gain, modulator, modulator gain), and the next
  \<^verbatim>\<open>toggle()\<close> completes in Idle with no voice. Where the window or the constructor is
  missing, \<^verbatim>\<open>toggle()\<close> changes nothing. After every sequence of such calls the
  synthesizer is Idle with 0 voices or Sounding with 4.
\<close>

theorem toggle_cycle:
  assumes "Idle s"
  shows "(has_window s \<and> AudioCtx s \<noteq> None \<longrightarrow>
            (\<exists>s1. toggle (isActive s) s = Done s1 \<and> Sounding s1
               \<and> distinct (concat (map node_ids (nodesRef s1)))
               \<and> (\<forall>i<4. \<exists>rate. session_voice s s1 i rate (nodesRef s1 ! i))
               \<and> (\<exists>s2. toggle (isActive s1) s1 = Done s2 \<and> Idle s2)))
       \<and> (\<not> has_window s \<or> AudioCtx s = None \<longrightarrow> toggle (isActive s) s = Done s)
       \<and> (\<forall>n. \<exists>s'. steps (replicate n toggle_after_render) s = Done s'
              \<and> (Idle s' \<or> Sounding s'))"
proof (intro conjI impI allI)
  assume "has_window s \<and> AudioCtx s \<noteq> None"
  then obtain fresh where "has_window s" "AudioCtx s = Some fresh"
    by auto
  from start_session [OF this]
  obtain s1 where s1: "start s = Done s1" "isActive s1" "length (nodesRef s1) = 4"
    "distinct (concat (map node_ids (nodesRef s1)))"
    and v: "\<forall>i<4. session_voice s s1 i (to_float (detune_rate (random s (draws s + i))))
              (nodesRef s1 ! i)"
    by blast
  from stop_lands_idle [of s1]
  obtain s2 where "stop s1 = Done s2" "Idle s2"
    by blast
  with s1 have "\<exists>s2. toggle (isActive s1) s1 = Done s2 \<and> Idle s2"
    by (simp add: toggle_def)
  moreover from assms s1 have "toggle (isActive s) s = Done s1" "Sounding s1"
    by (simp_all add: toggle_def Idle_def Sounding_def)
  moreover from v have "\<forall>i<4. \<exists>rate. session_voice s s1 i rate (nodesRef s1 ! i)"
    by blast
  ultimately show "\<exists>s1. toggle (isActive s) s = Done s1 \<and> Sounding s1
               \<and> distinct (concat (map node_ids (nodesRef s1)))
               \<and> (\<forall>i<4. \<exists>rate. session_voice s s1 i rate (nodesRef s1 ! i))
               \<and> (\<exists>s2. toggle (isActive s1) s1 = Done s2 \<and> Idle s2)"
    using s1(4) by blast
next
  assume "\<not> has_window s \<or> AudioCtx s = None"
  then have "start s = Done s"
    by (rule start_unavailable)
  with assms show "toggle (isActive s) s = Done s"
    by (simp add: toggle_def Idle_def)
next
  fix n
  from assms show "\<exists>s'. steps (replicate n toggle_after_render) s = Done s'
      \<and> (Idle s' \<or> Sounding s')"
    by (intro toggles) simp
qed

text \<open>
  Claim C6. In every state (whatever the nodes hold: oscillators never started or
  stopped before, on a platform that throws for them; with or without an audio
  context), \<^verbatim>\<open>stop()\<close> completes, without an exception, in Idle with no voice; a
  second \<^verbatim>\<open>stop()\<close> completes too and changes nothing but the log of calls (one more
  \<^verbatim>\<open>suspend\<close> where a context exists). Called in Idle before any context exists,
  \<^verbatim>\<open>stop()\<close> changes nothing at all. The body run for a voice completes in every state:
  what its \<^verbatim>\<open>try\<close> block throws is caught and ignored.
\<close>

theorem stop_safe:
  "(\<exists>s'. stop s = Done s' \<and> Idle s'
       \<and> stop s' =
           Done (s'\<lparr>audio_log := audio_log s' @ (if contextRef s' = None then [] else [Suspend])\<rparr>))
   \<and> (Idle s \<and> contextRef s = None \<longrightarrow> stop s = Done s)
   \<and> (\<forall>t v. \<exists>s'. stop_node t v s = Done s')"
proof (intro conjI impI allI)
  from stop_lands_idle [of s]
  obtain s' where s': "stop s = Done s'" "Idle s'"
    and su: "contextRef s' \<noteq> None \<longrightarrow> suspend s' = s'\<lparr>audio_log := audio_log s' @ [Suspend]\<rparr>"
    by blast
  from s'(2) su have "stop s' =
      Done (s'\<lparr>audio_log := audio_log s' @ (if contextRef s' = None then [] else [Suspend])\<rparr>)"
    by (simp add: stop_idle)
  with s' show "\<exists>s'. stop s = Done s' \<and> Idle s'
       \<and> stop s' =
           Done (s'\<lparr>audio_log := audio_log s' @ (if contextRef s' = None then [] else [Suspend])\<rparr>)"
    by blast
next
  assume "Idle s \<and> contextRef s = None"
  then show "stop s = Done s"
    by (simp add: stop_idle)
next
  fix t v
  from stop_node_done [of t v s] show "\<exists>s'. stop_node t v s = Done s'"
    by blast
qed



theorem toggle_cycle_witness:
  "Idle page
   \<and> (\<exists>s1. toggle False page = Done s1 \<and> Sounding s1 \<and> isActive s1
         \<and> (\<exists>s2. toggle True s1 = Done s2 \<and> Idle s2))
   \<and> toggle False (page\<lparr>has_window := False\<rparr>) = Done (page\<lparr>has_window := False\<rparr>)
   \<and> (\<exists>s'. steps (replicate 3 toggle_after_render) page = Done s' \<and> (Idle s' \<or> Sounding s'))"
proof -
  have i: "Idle page" "Idle (page\<lparr>has_window := False\<rparr>)"
    by (simp_all add: Idle_def page_def)
  have a: "isActive page = False" "isActive (page\<lparr>has_window := False\<rparr>) = False"
    by (simp_all add: page_def)
  have h: "has_window page \<and> AudioCtx page \<noteq> None"
    "\<not> has_window (page\<lparr>has_window := False\<rparr>) \<or> AudioCtx (page\<lparr>has_window := False\<rparr>) = None"
    by (simp_all add: page_def)
  from toggle_cycle [OF i(1)] h(1)
  obtain s1 where s1: "toggle (isActive page) page = Done s1" "Sounding s1"
    and s2: "\<exists>s2. toggle (isActive s1) s1 = Done s2 \<and> Idle s2"
    by blast
  from s1(2) have t: "isActive s1 = True"
    by (simp add: Sounding_def)
  from s1(1) have f: "toggle False page = Done s1"
    unfolding a .
  from s2 have g: "\<exists>s2. toggle True s1 = Done s2 \<and> Idle s2"
    unfolding t .
  from t have "isActive s1"
    by simp
  with f s1(2) g have 1: "\<exists>s1. toggle False page = Done s1 \<and> Sounding s1 \<and> isActive s1
         \<and> (\<exists>s2. toggle True s1 = Done s2 \<and> Idle s2)"
    by blast
  from toggle_cycle [OF i(1)]
  have 2: "\<exists>s'. steps (replicate 3 toggle_after_render) page = Done s' \<and> (Idle s' \<or> Sounding s')"
    by blast
  from toggle_cycle [OF i(2)] h(2)
  have "toggle (isActive (page\<lparr>has_window := False\<rparr>)) (page\<lparr>has_window := False\<rparr>) =
      Done (page\<lparr>has_window := False\<rparr>)"
    by blast
  then have 3: "toggle False (page\<lparr>has_window := False\<rparr>) = Done (page\<lparr>has_window := False\<rparr>)"
    unfolding a .
  show ?thesis
    by (rule conjI [OF i(1) conjI [OF 1 conjI [OF 3 2]]])
qed

text \<open>
  Claim C5 fails as stated. A page without an \<^verbatim>\<open>AudioContext\<close> constructor is Idle;
  \<^verbatim>\<open>toggle()\<close>, the closure of a render in Idle, returns at line 58 and leaves it Idle,
  with no voice.
\<close>

theorem toggle_without_audio_counterexample:
  "Idle (page\<lparr>AudioCtx := None\<rparr>)
   \<and> toggle False (page\<lparr>AudioCtx := None\<rparr>) = Done (page\<lparr>AudioCtx := None\<rparr>)
   \<and> \<not> Sounding (page\<lparr>AudioCtx := None\<rparr>)
   \<and> nodesRef (page\<lparr>AudioCtx := None\<rparr>) = []"
  by (simp add: Idle_def Sounding_def toggle_def start_def page_def)

theorem stop_safe_witness:
  "Idle page \<and> contextRef page = None \<and> stop page = Done page
   \<and> (\<exists>s1. steps
              [exponentialRampToValueAtTime 1 (to_double 0.0001) (to_double (5 + to_double 0.5)),
               exponentialRampToValueAtTime 3 (to_double 0.0001) (to_double (5 + to_double 0.5)),
               osc_stop 0 (to_double (5 + to_double 0.6)),
               osc_stop 2 (to_double (5 + to_double 0.6))] stale_page = Threw InvalidStateError s1)
   \<and> (\<exists>s'. stop stale_page = Done s' \<and> Idle s')
   \<and> (\<exists>s'. stop_node 5 \<lparr>osc = 0, gain = 1, modOsc = 2, modGain = 3\<rparr> stale_page = Done s')"
proof -
  have i: "Idle page \<and> contextRef page = None"
    by (simp add: Idle_def page_def)
  from stop_safe [of page] i have 1: "stop page = Done page"
    by blast
  have z: "to_float (to_double 0.0001) \<noteq> 0"
    unfolding float_0_0001 by simp
  have 2: "\<exists>s1. steps
              [exponentialRampToValueAtTime 1 (to_double 0.0001) (to_double (5 + to_double 0.5)),
               exponentialRampToValueAtTime 3 (to_double 0.0001) (to_double (5 + to_double 0.5)),
               osc_stop 0 (to_double (5 + to_double 0.6)),
               osc_stop 2 (to_double (5 + to_double 0.6))] stale_page = Threw InvalidStateError s1"
    using z
    by (simp add: stale_page_def page_def exponentialRampToValueAtTime_def osc_stop_def
          called_def on_node_def)
  from stop_safe [of stale_page]
  have 3: "\<exists>s'. stop stale_page = Done s' \<and> Idle s'"
    and 4: "\<exists>s'. stop_node 5 \<lparr>osc = 0, gain = 1, modOsc = 2, modGain = 3\<rparr> stale_page = Done s'"
    by blast+
  from i 1 2 3 4 show ?thesis
    by blast
qed

end
